theory Spec2Isabelle
  imports Main "HOL-Library.Word" "HOL-Library.AList"
begin

section \<open>Device identity (device-identity.ts)\<close>

text \<open>
  Strings are lists of 8-bit characters: the strings of the model are the JavaScript strings
  whose code units are all below \<open>0x100\<close>. Numbers are modelled as \<open>int\<close>: the numbers of
  the model are the whole numbers, and the model follows JavaScript on the safe integers
  (see \<open>Number_isSafeInteger\<close> below), which the millisecond timestamps (\<open>Date.now()\<close>,
  \<open>signedAtMs\<close>, \<open>createdAtMs\<close>) and the timeouts are. A \<open>Uint8Array\<close> is a list of 8-bit
  words.
\<close>

type_synonym byte = "8 word"

subsection \<open>Helpers\<close>

text \<open>\<open>Array.prototype.join(sep)\<close> on an array of strings.\<close>

fun join :: "string \<Rightarrow> string list \<Rightarrow> string" where
  "join sep [] = []"
| "join sep [x] = x"
| "join sep (x # y # ys) = x @ sep @ join sep (y # ys)"

text \<open>\<open>Number.isSafeInteger\<close>: the whole numbers of magnitude at most \<open>2\<^sup>5\<^sup>3 - 1\<close>, each of
  which a JavaScript number holds exactly.\<close>

definition Number_isSafeInteger :: "int \<Rightarrow> bool" where
  "Number_isSafeInteger n = (\<bar>n\<bar> \<le> 2 ^ 53 - 1)"

text \<open>\<open>String(n)\<close> for a safe integer \<open>n\<close>: its decimal digits, with a leading minus sign
  for a negative one. Outside the safe integers \<open>String\<close> prints something else, and
  \<open>String_number\<close> does not describe it: above \<open>2\<^sup>5\<^sup>3\<close> the digits are those of the shortest
  decimal that reads back as the same number, from \<open>1e21\<close> on the notation is exponential
  (\<open>String(1e21)\<close> is \<open>1e+21\<close>), and a number that is not whole prints with a fraction.\<close>

fun decimal :: "nat \<Rightarrow> string" where
  "decimal n = (if n < 10 then [''0123456789'' ! n]
                else decimal (n div 10) @ [''0123456789'' ! (n mod 10)])"

definition String_number :: "int \<Rightarrow> string" where
  "String_number n = (if n < 0 then CHR ''-'' # decimal (nat (- n)) else decimal (nat n))"

text \<open>\<open>b.toString(16)\<close> and \<open>padStart(2, "0")\<close>.\<close>

fun toString16 :: "nat \<Rightarrow> string" where
  "toString16 n = (if n < 16 then [''0123456789abcdef'' ! n]
                   else toString16 (n div 16) @ [''0123456789abcdef'' ! (n mod 16)])"

definition padStart :: "nat \<Rightarrow> char \<Rightarrow> string \<Rightarrow> string" where
  "padStart n c s = replicate (n - length s) c @ s"

text \<open>\<open>hexEncode\<close>: every byte as two hexadecimal digits, joined with no separator.\<close>

definition hexEncode :: "byte list \<Rightarrow> string" where
  "hexEncode bytes = join [] (map (\<lambda>b. padStart 2 (CHR ''0'') (toString16 (unat b))) bytes)"

text \<open>\<open>sha256Hex\<close>: the platform's digest (\<open>crypto.subtle.digest("SHA-256", _)\<close>, a parameter
  of the model) followed by \<open>hexEncode\<close>.\<close>

definition sha256Hex :: "(byte list \<Rightarrow> byte list) \<Rightarrow> byte list \<Rightarrow> string" where
  "sha256Hex digest data = hexEncode (digest data)"

subsection \<open>Base64\<close>

text \<open>\<open>str.replace(/a/g, "b")\<close> for single characters \<open>a\<close> and \<open>b\<close>.\<close>

definition replaceAll :: "char \<Rightarrow> char \<Rightarrow> string \<Rightarrow> string" where
  "replaceAll a b s = map (\<lambda>c. if c = a then b else c) s"

text \<open>The base64 alphabet, and the value of a character in it.\<close>

definition base64_chars :: string where
  "base64_chars = ''ABCDEFGHIJKLMNOPQRSTUVWXYZabcdefghijklmnopqrstuvwxyz0123456789+/''"

definition base64_value :: "char \<Rightarrow> nat option" where
  "base64_value ch = map_of (zip base64_chars [0..<64]) ch"

text \<open>Three bytes make four six-bit groups; one or two bytes left over make two or three.\<close>

fun encode_groups :: "nat list \<Rightarrow> nat list" where
  "encode_groups (a # b # c # bs) =
     [a div 4, (a mod 4) * 16 + b div 16, (b mod 16) * 4 + c div 64, c mod 64] @ encode_groups bs"
| "encode_groups [a, b] = [a div 4, (a mod 4) * 16 + b div 16, (b mod 16) * 4]"
| "encode_groups [a] = [a div 4, (a mod 4) * 16]"
| "encode_groups [] = []"

text \<open>\<open>btoa\<close>: base64 with padding. (It throws on a character above U+00FF; the characters of
  the model are all below.)\<close>

definition btoa :: "string \<Rightarrow> string" where
  "btoa binary =
     map (\<lambda>v. base64_chars ! v) (encode_groups (map of_char binary))
     @ replicate ((3 - length binary mod 3) mod 3) (CHR ''='')"

text \<open>Four six-bit groups make three bytes; of two or three groups left over, the last four
  or two bits are discarded.\<close>

fun decode_groups :: "nat list \<Rightarrow> nat list" where
  "decode_groups (a # b # c # d # vs) =
     [a * 4 + b div 16, (b mod 16) * 16 + c div 4, (c mod 4) * 64 + d] @ decode_groups vs"
| "decode_groups [a, b, c] = [a * 4 + b div 16, (b mod 16) * 16 + c div 4]"
| "decode_groups [a, b] = [a * 4 + b div 16]"
| "decode_groups vs = []"

fun base64_values :: "string \<Rightarrow> nat list option" where
  "base64_values [] = Some []"
| "base64_values (ch # cs) =
     (case base64_value ch of
        None \<Rightarrow> None
      | Some v \<Rightarrow> (case base64_values cs of None \<Rightarrow> None | Some vs \<Rightarrow> Some (v # vs)))"

text \<open>\<open>atob\<close>, the forgiving base64 decoding of the platform: ASCII whitespace is removed; if
  the length is then a multiple of four, one or two \<open>=\<close> at the end are removed; a length of
  one more than a multiple of four, or a character outside the alphabet, is an error
  (\<open>None\<close>: \<open>atob\<close> throws); the rest is decoded.\<close>

definition remove_padding :: "string \<Rightarrow> string" where
  "remove_padding d =
     (case rev d of
        x # y # r \<Rightarrow> if x = CHR ''='' \<and> y = CHR ''='' then rev r
                     else if x = CHR ''='' then rev (y # r) else d
      | [x] \<Rightarrow> if x = CHR ''='' then [] else d
      | [] \<Rightarrow> d)"

definition atob :: "string \<Rightarrow> string option" where
  "atob data =
     (let d1 = filter (\<lambda>ch. ch \<notin> set [CHR 0x09, CHR 0x0A, CHR 0x0C, CHR 0x0D, CHR '' '']) data;
          d2 = (if length d1 mod 4 = 0 then remove_padding d1 else d1)
      in if length d2 mod 4 = 1 then None
         else (case base64_values d2 of
                 None \<Rightarrow> None
               | Some vs \<Rightarrow> Some (map char_of (decode_groups vs))))"

text \<open>\<open>base64UrlEncode\<close>: one character per byte (\<open>String.fromCharCode\<close>), \<open>btoa\<close>, the two
  characters \<open>+\<close> and \<open>/\<close> replaced by \<open>-\<close> and \<open>_\<close>, and the padding at the end (\<open>/=+$/\<close>)
  removed.\<close>

definition base64UrlEncode :: "byte list \<Rightarrow> string" where
  "base64UrlEncode bytes =
     (let binary = map (\<lambda>b. char_of (unat b)) bytes
      in rev (dropWhile (\<lambda>ch. ch = CHR ''='')
                (rev (replaceAll (CHR ''/'') (CHR ''_'')
                        (replaceAll (CHR ''+'') (CHR ''-'') (btoa binary))))))"

text \<open>\<open>base64UrlDecode\<close>: the two URL-safe characters are mapped back, the input is padded
  with \<open>=\<close> to a multiple of four and \<open>atob\<close> decodes it to a binary string, one character
  per byte (\<open>charCodeAt\<close>); \<open>None\<close> when \<open>atob\<close> throws.\<close>

definition base64UrlDecode :: "string \<Rightarrow> byte list option" where
  "base64UrlDecode str =
     (let padded = replaceAll (CHR ''_'') (CHR ''/'') (replaceAll (CHR ''-'') (CHR ''+'') str)
                   @ replicate ((4 - (length str mod 4)) mod 4) (CHR ''='')
      in case atob padded of
           None \<Rightarrow> None
         | Some binary \<Rightarrow> Some (map (\<lambda>ch. of_char ch) binary))"

subsection \<open>Identity data and validation\<close>

record DeviceIdentityData =
  version :: nat
  deviceId :: string
  publicKey :: string
  privateKey :: string
  createdAtMs :: int

text \<open>The exception that \<open>atob\<close> throws on text that is not base64.\<close>

datatype js_error = InvalidCharacterError

text \<open>\<open>generateDeviceIdentity\<close>: the random secret key, the derivation of the public key
  (\<open>ed.getPublicKeyAsync\<close>), the digest and the clock (\<open>Date.now()\<close>) are parameters.\<close>

definition generateDeviceIdentity ::
  "byte list \<Rightarrow> (byte list \<Rightarrow> byte list) \<Rightarrow> (byte list \<Rightarrow> byte list) \<Rightarrow> int
    \<Rightarrow> DeviceIdentityData" where
  "generateDeviceIdentity randomSecretKey getPublicKey digest now =
     (let privateKeyBytes = randomSecretKey;
          publicKeyBytes = getPublicKey privateKeyBytes;
          derivedId = sha256Hex digest publicKeyBytes
      in \<lparr>version = 1, deviceId = derivedId, publicKey = base64UrlEncode publicKeyBytes,
          privateKey = base64UrlEncode privateKeyBytes, createdAtMs = now\<rparr>)"

text \<open>\<open>validateDeviceIdentity\<close>: re-derives the id from the stored public key. The function
  catches nothing, so the promise rejects (\<open>Inl\<close>) when \<open>atob\<close> throws on the stored key.\<close>

definition validateDeviceIdentity ::
  "(byte list \<Rightarrow> byte list) \<Rightarrow> DeviceIdentityData \<Rightarrow> js_error + DeviceIdentityData" where
  "validateDeviceIdentity digest data =
     (case base64UrlDecode (publicKey data) of
        None \<Rightarrow> Inl InvalidCharacterError
      | Some pubBytes \<Rightarrow>
          (let derivedId = sha256Hex digest pubBytes
           in if derivedId \<noteq> deviceId data then Inr (data\<lparr>deviceId := derivedId\<rparr>)
              else Inr data))"

subsection \<open>The signed payload\<close>

text \<open>\<open>buildDeviceAuthPayload\<close>; the fields of its \<open>params\<close> object are the arguments, in
  the order of the source's type.\<close>

definition buildDeviceAuthPayload ::
  "string \<Rightarrow> string \<Rightarrow> string \<Rightarrow> string \<Rightarrow> string list \<Rightarrow> int \<Rightarrow> string option \<Rightarrow> string
    \<Rightarrow> string" where
  "buildDeviceAuthPayload p_deviceId p_clientId p_clientMode p_role p_scopes p_signedAtMs
       p_token p_nonce =
     (let scopes = join '','' p_scopes;
          token = (case p_token of None \<Rightarrow> [] | Some t \<Rightarrow> t)
      in join ''|'' [''v2'', p_deviceId, p_clientId, p_clientMode, p_role, scopes,
                     String_number p_signedAtMs, token, p_nonce])"

text \<open>A list of scopes none of which contains a comma.\<close>

definition comma_free :: "string list \<Rightarrow> bool" where
  "comma_free xs = list_all (\<lambda>s. CHR '','' \<notin> set s) xs"

section \<open>Chat session routing (gateway-client.ts)\<close>

subsection \<open>Chat events\<close>

record ContentBlock =
  block_type :: string
  block_text :: "string option"

record ChatMessage =
  msg_role :: string
  msg_content :: "ContentBlock list"
  msg_timestamp :: int

datatype ChatState = Delta | Final | Aborted | Error

record ChatEventPayload =
  ev_runId :: string
  ev_sessionKey :: string
  ev_seq :: int
  ev_state :: ChatState
  ev_message :: "ChatMessage option"
  ev_errorMessage :: "string option"

text \<open>\<open>extractTextFromChatMessage\<close>: the blocks of type \<open>text\<close> whose text is truthy (present
  and not empty), joined with no separator; \<open>null\<close> when the message is absent or no block
  is left.\<close>

definition extractTextFromChatMessage :: "ChatMessage option \<Rightarrow> string option" where
  "extractTextFromChatMessage message =
     (case message of
        None \<Rightarrow> None
      | Some m \<Rightarrow>
          (let parts = map (\<lambda>c. the (block_text c))
                         (filter (\<lambda>c. block_type c = ''text'' \<and> block_text c \<noteq> None
                                        \<and> block_text c \<noteq> Some [])
                            (msg_content m))
           in if length parts > 0 then Some (join [] parts) else None))"

text \<open>The concatenated text of the message's text content blocks: every block of type
  \<open>text\<close> contributes its text, a block without text contributes nothing.\<close>

definition text_of_blocks :: "ChatMessage \<Rightarrow> string" where
  "text_of_blocks m =
     concat (map (\<lambda>b. case block_text b of None \<Rightarrow> [] | Some t \<Rightarrow> t)
               (filter (\<lambda>b. block_type b = ''text'') (msg_content m)))"

subsection \<open>The router\<close>

text \<open>
  A caller of \<open>sendMessageStreaming\<close> passes three callbacks; the model names the caller by a
  number and records every invocation of one of its callbacks, in order. The map
  \<open>chatEventListeners\<close> holds, for a run id, the caller registered for it.
\<close>

datatype callback = OnChunk nat string | OnDone nat | OnError nat string

record router =
  chatEventListeners :: "string \<rightharpoonup> nat"
  invoked :: "callback list"

text \<open>The registration made by \<open>sendMessageStreaming\<close> once \<open>chatSend\<close> has returned the run
  id.\<close>

definition register_listener :: "string \<Rightarrow> nat \<Rightarrow> router \<Rightarrow> router" where
  "register_listener runId caller r =
     r\<lparr>chatEventListeners := (chatEventListeners r)(runId \<mapsto> caller)\<rparr>"

text \<open>The three members of a registered listener: \<open>onChunk\<close> is the caller's own; \<open>onDone\<close> and
  \<open>onError\<close> first delete the registration of the run id, then call the caller's.\<close>

definition listener_onChunk :: "nat \<Rightarrow> string \<Rightarrow> router \<Rightarrow> router" where
  "listener_onChunk caller text r = r\<lparr>invoked := invoked r @ [OnChunk caller text]\<rparr>"

definition listener_onDone :: "string \<Rightarrow> nat \<Rightarrow> router \<Rightarrow> router" where
  "listener_onDone runId caller r =
     r\<lparr>chatEventListeners := (chatEventListeners r)(runId := None),
       invoked := invoked r @ [OnDone caller]\<rparr>"

definition listener_onError :: "string \<Rightarrow> nat \<Rightarrow> string \<Rightarrow> router \<Rightarrow> router" where
  "listener_onError runId caller err r =
     r\<lparr>chatEventListeners := (chatEventListeners r)(runId := None),
       invoked := invoked r @ [OnError caller err]\<rparr>"

text \<open>\<open>handleChatEvent\<close>.\<close>

definition handleChatEvent :: "ChatEventPayload \<Rightarrow> router \<Rightarrow> router" where
  "handleChatEvent event r =
     (case chatEventListeners r (ev_runId event) of
        None \<Rightarrow> r
      | Some listener \<Rightarrow>
          (case ev_state event of
             Delta \<Rightarrow>
               (case extractTextFromChatMessage (ev_message event) of
                  None \<Rightarrow> r
                | Some text \<Rightarrow> listener_onChunk listener text r)
           | Final \<Rightarrow>
               listener_onDone (ev_runId event) listener
                 (case extractTextFromChatMessage (ev_message event) of
                    None \<Rightarrow> r
                  | Some text \<Rightarrow> listener_onChunk listener text r)
           | Error \<Rightarrow>
               listener_onError (ev_runId event) listener
                 (case ev_errorMessage event of
                    None \<Rightarrow> ''Unknown gateway error''
                  | Some m \<Rightarrow> m) r
           | Aborted \<Rightarrow> listener_onDone (ev_runId event) listener r))"

text \<open>Events handled one after the other, in arrival order.\<close>

definition handleChatEvents :: "ChatEventPayload list \<Rightarrow> router \<Rightarrow> router" where
  "handleChatEvents events r = fold handleChatEvent events r"

section \<open>The WebSocket client (ws-gateway-client.ts)\<close>

subsection \<open>Frames\<close>

datatype WsConnectionState =
  Disconnected | Connecting | Authenticating | Connected | Reconnecting | Pairing_required

text \<open>An \<open>Error\<close> object, with the \<open>code\<close> that \<open>handleResponse\<close> attaches.\<close>

record Err =
  err_message :: string
  err_code :: "string option"

text \<open>The \<open>error\<close> member of a response frame.\<close>

record ErrorInfo =
  error_code :: "string option"
  error_message :: string

text \<open>A response payload, through the members the client reads: \<open>runId\<close>,
  \<open>auth.deviceToken\<close>, \<open>auth.role\<close>, \<open>auth.scopes\<close> and \<open>policy.tickIntervalMs\<close> (when it is a
  number).\<close>

record Payload =
  payload_runId :: "string option"
  auth_deviceToken :: "string option"
  auth_role :: "string option"
  auth_scopes :: "string list option"
  policy_tickIntervalMs :: "int option"

record GatewayResponse =
  res_id :: string
  res_ok :: bool
  res_payload :: "Payload option"
  res_error :: "ErrorInfo option"

record DeviceAuthToken =
  token :: string
  role :: string
  scopes :: "string list"
  updatedAtMs :: int

text \<open>An event frame, by its \<open>event\<close> name: \<open>connect.challenge\<close> (with the payload's \<open>nonce\<close>
  when that is a string), \<open>tick\<close>, \<open>chat\<close> (with the payload when there is one), or any
  other name.\<close>

datatype GatewayEvent =
  ConnectChallenge "string option" | Tick | Chat "ChatEventPayload option" | OtherEvent string

text \<open>What \<open>handleMessage\<close> makes of the raw text: it does not parse, it is an event frame
  (\<open>event\<close> is a string), it is a response frame (\<open>id\<close> is a string and \<open>ok\<close> a boolean), or
  it is none of these.\<close>

datatype Frame = Unparsable | EventFrame GatewayEvent | ResponseFrame GatewayResponse | OtherFrame

subsection \<open>The client and its surroundings\<close>

datatype readyState = CONNECTING | OPEN | CLOSING | CLOSED

text \<open>What the client does to the outside, in order: the callbacks of its options, the
  calls on a socket (named by the number of its creation), and the settling of the promise
  returned by the \<open>k\<close>-th call of \<open>request\<close>.\<close>

datatype effect =
    StateChange WsConnectionState
  | PairingRequired
  | ConnectError Err
  | DeviceTokenReceived DeviceAuthToken
  | ChatEvent ChatEventPayload
  | NewWebSocket nat string
  | WsClose nat "int option" string
  | WsSend nat string string
  | Resolve nat "Payload option"
  | Reject nat Err

text \<open>The closure of a request's timeout: the id, the method and the duration it names.\<close>

record RpcTimer =
  t_id :: string
  t_method :: string
  t_timeoutMs :: int

text \<open>The two continuations of \<open>sendConnect\<close> after \<open>await this.request("connect", ...)\<close>;
  the flag is whether \<open>deviceIdentity\<close> was set when \<open>sendConnect\<close> began.\<close>

datatype job = HelloOk bool "Payload option" | ConnectFailed Err

text \<open>
  The fields of the class come first, under their names. A pending request is the number
  \<open>k\<close> of the \<open>request\<close> call that made it, which names its promise (\<open>resolve\<close>, \<open>reject\<close>)
  and its timeout. A timer field says whether its timer is live, and with what delay or
  period; a timeout that has fired is no longer live.

  The rest is the surroundings: the sockets created so far with their \<open>readyState\<close>, the
  live request timeouts, the number of \<open>request\<close> calls, the calls awaited by
  \<open>sendConnect\<close>, the number of \<open>sendConnect\<close> invocations suspended at
  \<open>await signPayload\<close>, the continuations to run once the current handler returns, and
  the effects so far.
\<close>

record client =
  ws :: "nat option"
  pending :: "(string \<times> nat) list"
  state :: WsConnectionState
  connectNonce :: "string option"
  connectSent :: bool
  connectTimer :: bool
  tickTimer :: "int option"
  lastTick :: "int option"
  tickIntervalMs :: int
  backoffMs :: int
  closed :: bool
  reconnectTimer :: "int option"
  sockets :: "readyState list"
  rpcTimers :: "(nat \<times> RpcTimer) list"
  calls :: nat
  awaiting :: "(nat \<times> bool) list"
  signing :: nat
  jobs :: "job list"
  trace :: "effect list"

definition initial :: client where
  "initial = \<lparr>ws = None, pending = [], state = Disconnected, connectNonce = None,
     connectSent = False, connectTimer = False, tickTimer = None, lastTick = None,
     tickIntervalMs = 30000, backoffMs = 1000, closed = False, reconnectTimer = None,
     sockets = [], rpcTimers = [], calls = 0, awaiting = [], signing = 0, jobs = [],
     trace = []\<rparr>"

text \<open>What a handler reads from outside while it runs: the clock, the configured URL,
  whether \<open>new WebSocket(url)\<close> throws, the value of \<open>crypto.randomUUID()\<close>, and whether a
  device identity is configured.\<close>

record env =
  env_now :: int
  env_url :: string
  env_throws :: bool
  env_uuid :: string
  env_hasIdentity :: bool

definition emit :: "effect \<Rightarrow> client \<Rightarrow> client" where
  "emit e c = c\<lparr>trace := trace c @ [e]\<rparr>"

definition readyStateOf :: "client \<Rightarrow> nat \<Rightarrow> readyState" where
  "readyStateOf c i = (if i < length (sockets c) then sockets c ! i else CLOSED)"

text \<open>\<open>socket.close(code, reason)\<close>: a socket that is connecting or open starts closing.\<close>

definition socket_close :: "nat \<Rightarrow> int option \<Rightarrow> string \<Rightarrow> client \<Rightarrow> client" where
  "socket_close i code reason c =
     emit (WsClose i code reason)
       (c\<lparr>sockets := (if readyStateOf c i = CONNECTING \<or> readyStateOf c i = OPEN
                        then (sockets c)[i := CLOSING] else sockets c)\<rparr>)"

text \<open>\<open>this.ws?.close(code, reason)\<close>.\<close>

definition ws_close :: "int \<Rightarrow> string \<Rightarrow> client \<Rightarrow> client" where
  "ws_close code reason c =
     (case ws c of None \<Rightarrow> c | Some i \<Rightarrow> socket_close i (Some code) reason c)"

text \<open>Settling the promise of call \<open>k\<close>. If a \<open>sendConnect\<close> awaits it, its continuation is
  queued, once.\<close>

definition resolve :: "nat \<Rightarrow> Payload option \<Rightarrow> client \<Rightarrow> client" where
  "resolve k p c =
     (let c1 = emit (Resolve k p) c
      in case map_of (awaiting c1) k of
           None \<Rightarrow> c1
         | Some hasId \<Rightarrow> c1\<lparr>awaiting := AList.delete k (awaiting c1),
                              jobs := jobs c1 @ [HelloOk hasId p]\<rparr>)"

definition reject :: "nat \<Rightarrow> Err \<Rightarrow> client \<Rightarrow> client" where
  "reject k err c =
     (let c1 = emit (Reject k err) c
      in case map_of (awaiting c1) k of
           None \<Rightarrow> c1
         | Some hasId \<Rightarrow> c1\<lparr>awaiting := AList.delete k (awaiting c1),
                              jobs := jobs c1 @ [ConnectFailed err]\<rparr>)"

definition new_Error :: "string \<Rightarrow> Err" where
  "new_Error m = \<lparr>err_message = m, err_code = None\<rparr>"

subsection \<open>Private methods\<close>

definition setState :: "WsConnectionState \<Rightarrow> client \<Rightarrow> client" where
  "setState s c = (if state c = s then c else emit (StateChange s) (c\<lparr>state := s\<rparr>))"

definition startsWith :: "string \<Rightarrow> string \<Rightarrow> bool" where
  "startsWith s p = (take (length p) s = p)"

text \<open>\<open>resolveWsUrl\<close>: trailing slashes are removed, then the scheme is rewritten.\<close>

definition resolveWsUrl :: "string \<Rightarrow> string" where
  "resolveWsUrl url =
     (let raw = rev (dropWhile (\<lambda>ch. ch = CHR ''/'') (rev url))
      in if startsWith raw ''http://'' then ''ws://'' @ drop 7 raw
         else if startsWith raw ''https://'' then ''wss://'' @ drop 8 raw
         else if startsWith raw ''ws://'' \<or> startsWith raw ''wss://'' then raw
         else ''ws://'' @ raw)"

definition clearTimers :: "client \<Rightarrow> client" where
  "clearTimers c = c\<lparr>connectTimer := False, tickTimer := None, reconnectTimer := None\<rparr>"

text \<open>\<open>flushPending\<close>: in the order of the map, each timeout is cleared and each promise
  rejected; then the map is emptied.\<close>

fun flush_entries :: "Err \<Rightarrow> (string \<times> nat) list \<Rightarrow> client \<Rightarrow> client" where
  "flush_entries err [] c = c"
| "flush_entries err ((i, k) # ps) c =
     flush_entries err ps (reject k err (c\<lparr>rpcTimers := AList.delete k (rpcTimers c)\<rparr>))"

definition flushPending :: "Err \<Rightarrow> client \<Rightarrow> client" where
  "flushPending err c = (flush_entries err (pending c) c)\<lparr>pending := []\<rparr>"

definition scheduleReconnect :: "client \<Rightarrow> client" where
  "scheduleReconnect c =
     (if closed c then c
      else (let c1 = clearTimers c;
                delay = backoffMs c1
            in c1\<lparr>backoffMs := min (backoffMs c1 * 2) 30000, reconnectTimer := Some delay\<rparr>))"

definition startTickWatch :: "client \<Rightarrow> client" where
  "startTickWatch c = c\<lparr>tickTimer := Some (max (tickIntervalMs c) 1000)\<rparr>"

definition queueConnectTimeout :: "client \<Rightarrow> client" where
  "queueConnectTimeout c = c\<lparr>connectTimer := True\<rparr>"

text \<open>\<open>connect\<close>. The socket handlers it installs are \<open>ws_onopen\<close>, \<open>ws_onmessage\<close> and
  \<open>ws_onclose\<close> below.\<close>

definition connect :: "env \<Rightarrow> client \<Rightarrow> client" where
  "connect e c =
     (let c1 = (case ws c of
                  None \<Rightarrow> c
                | Some i \<Rightarrow> (socket_close i None [] c)\<lparr>ws := None\<rparr>);
          c2 = c1\<lparr>connectNonce := None, connectSent := False\<rparr>;
          url = resolveWsUrl (env_url e);
          c3 = setState Connecting c2
      in if env_throws e then scheduleReconnect (setState Disconnected c3)
         else emit (NewWebSocket (length (sockets c3)) url)
                (c3\<lparr>ws := Some (length (sockets c3)), sockets := sockets c3 @ [CONNECTING]\<rparr>))"

text \<open>\<open>request\<close>. The call gets the next number; its promise is rejected at once when the
  socket is missing or not open, else the entry and its timeout are registered and the
  frame is sent. \<open>owner\<close> is set when the caller is \<open>sendConnect\<close>.\<close>

definition request :: "bool option \<Rightarrow> string \<Rightarrow> int \<Rightarrow> env \<Rightarrow> client \<Rightarrow> client" where
  "request owner method timeoutMs e c =
     (let k = calls c;
          c1 = c\<lparr>calls := Suc k,
                 awaiting := (case owner of None \<Rightarrow> awaiting c
                              | Some hasId \<Rightarrow> awaiting c @ [(k, hasId)])\<rparr>
      in case ws c1 of
           None \<Rightarrow> reject k (new_Error ''WebSocket not connected'') c1
         | Some i \<Rightarrow>
             if readyStateOf c1 i \<noteq> OPEN
             then reject k (new_Error ''WebSocket not connected'') c1
             else emit (WsSend i (env_uuid e) method)
                    (c1\<lparr>rpcTimers := rpcTimers c1 @
                            [(k, \<lparr>t_id = env_uuid e, t_method = method,
                                   t_timeoutMs = timeoutMs\<rparr>)],
                         pending := AList.update (env_uuid e) k (pending c1)\<rparr>))"

text \<open>The callback of a request's timeout.\<close>

definition rpcTimer_fired :: "nat \<Rightarrow> client \<Rightarrow> client" where
  "rpcTimer_fired k c =
     (case map_of (rpcTimers c) k of
        None \<Rightarrow> c
      | Some t \<Rightarrow>
          reject k
            (new_Error (''RPC timeout: '' @ t_method t @ '' ('' @ String_number (t_timeoutMs t)
                          @ ''ms)''))
            (c\<lparr>rpcTimers := AList.delete k (rpcTimers c),
               pending := AList.delete (t_id t) (pending c)\<rparr>))"

definition handleResponse :: "GatewayResponse \<Rightarrow> client \<Rightarrow> client" where
  "handleResponse res c =
     (case map_of (pending c) (res_id res) of
        None \<Rightarrow> c
      | Some k \<Rightarrow>
          (let c1 = c\<lparr>pending := AList.delete (res_id res) (pending c),
                       rpcTimers := AList.delete k (rpcTimers c)\<rparr>
           in if res_ok res then resolve k (res_payload res) c1
              else reject k
                     \<lparr>err_message = (case res_error res of
                                       None \<Rightarrow> ''unknown gateway error''
                                     | Some er \<Rightarrow> error_message er),
                      err_code = (case res_error res of
                                    None \<Rightarrow> None
                                  | Some er \<Rightarrow> error_code er)\<rparr>
                     c1))"

text \<open>\<open>sendConnect\<close>, from the request on: the part that runs at once when there is no
  device identity, and after \<open>await signPayload\<close> otherwise.\<close>

definition sendConnect_request :: "bool \<Rightarrow> env \<Rightarrow> client \<Rightarrow> client" where
  "sendConnect_request hasId e c = request (Some hasId) ''connect'' 15000 e c"

definition sendConnect :: "env \<Rightarrow> client \<Rightarrow> client" where
  "sendConnect e c =
     (if connectSent c then c
      else if connectNonce c = None \<or> connectNonce c = Some [] then c
      else (let c1 = c\<lparr>connectSent := True, connectTimer := False\<rparr>
            in if env_hasIdentity e then c1\<lparr>signing := Suc (signing c1)\<rparr>
               else sendConnect_request False e c1))"

definition signPayload_settled :: "env \<Rightarrow> client \<Rightarrow> client" where
  "signPayload_settled e c =
     (if signing c = 0 then c
      else sendConnect_request True e (c\<lparr>signing := signing c - 1\<rparr>))"

text \<open>The \<open>try\<close> block of \<open>sendConnect\<close> after the request has resolved.\<close>

definition sendConnect_ok :: "bool \<Rightarrow> Payload option \<Rightarrow> env \<Rightarrow> client \<Rightarrow> client" where
  "sendConnect_ok hasId helloOk e c =
     (let c1 = c\<lparr>backoffMs := 1000\<rparr>;
          deviceToken = (case helloOk of None \<Rightarrow> None | Some p \<Rightarrow> auth_deviceToken p);
          c2 = (if deviceToken \<noteq> None \<and> deviceToken \<noteq> Some [] \<and> hasId
                then emit (DeviceTokenReceived
                       \<lparr>token = the deviceToken,
                        role = (case auth_role (the helloOk) of
                                  None \<Rightarrow> ''operator'' | Some r \<Rightarrow> r),
                        scopes = (case auth_scopes (the helloOk) of
                                    None \<Rightarrow> [''operator.read'', ''operator.write'']
                                  | Some ss \<Rightarrow> ss),
                        updatedAtMs = env_now e\<rparr>) c1
                else c1);
          interval = (case helloOk of None \<Rightarrow> None | Some p \<Rightarrow> policy_tickIntervalMs p);
          c3 = (case interval of
                  None \<Rightarrow> c2
                | Some n \<Rightarrow> if n > 0 then c2\<lparr>tickIntervalMs := n\<rparr> else c2);
          c4 = c3\<lparr>lastTick := Some (env_now e)\<rparr>
      in setState Connected (startTickWatch c4))"

text \<open>\<open>String.prototype.toLowerCase\<close> on the characters of the model: the letters \<open>A\<close> to
  \<open>Z\<close>, and the capital letters \<open>U+00C0\<close> to \<open>U+00DE\<close> of Latin-1 (all but the
  multiplication sign \<open>U+00D7\<close>), are replaced by their small letters, \<open>0x20\<close> further on.\<close>

definition toLowerCase :: "string \<Rightarrow> string" where
  "toLowerCase s =
     map (\<lambda>ch. case map_of (zip (''ABCDEFGHIJKLMNOPQRSTUVWXYZ''
                                    @ [CHR 0xC0, CHR 0xC1, CHR 0xC2, CHR 0xC3, CHR 0xC4, CHR 0xC5,
                                       CHR 0xC6, CHR 0xC7, CHR 0xC8, CHR 0xC9, CHR 0xCA, CHR 0xCB,
                                       CHR 0xCC, CHR 0xCD, CHR 0xCE, CHR 0xCF, CHR 0xD0, CHR 0xD1,
                                       CHR 0xD2, CHR 0xD3, CHR 0xD4, CHR 0xD5, CHR 0xD6, CHR 0xD8,
                                       CHR 0xD9, CHR 0xDA, CHR 0xDB, CHR 0xDC, CHR 0xDD, CHR 0xDE])
                                 (''abcdefghijklmnopqrstuvwxyz''
                                    @ [CHR 0xE0, CHR 0xE1, CHR 0xE2, CHR 0xE3, CHR 0xE4, CHR 0xE5,
                                       CHR 0xE6, CHR 0xE7, CHR 0xE8, CHR 0xE9, CHR 0xEA, CHR 0xEB,
                                       CHR 0xEC, CHR 0xED, CHR 0xEE, CHR 0xEF, CHR 0xF0, CHR 0xF1,
                                       CHR 0xF2, CHR 0xF3, CHR 0xF4, CHR 0xF5, CHR 0xF6, CHR 0xF8,
                                       CHR 0xF9, CHR 0xFA, CHR 0xFB, CHR 0xFC, CHR 0xFD, CHR 0xFE])) ch of
                  None \<Rightarrow> ch | Some l \<Rightarrow> l) s"

fun string_includes :: "string \<Rightarrow> string \<Rightarrow> bool" where
  "string_includes [] sub = (sub = [])"
| "string_includes (x # xs) sub = (startsWith (x # xs) sub \<or> string_includes xs sub)"

text \<open>The test of the \<open>catch\<close> block for a pairing error.\<close>

definition pairing_error :: "Err \<Rightarrow> bool" where
  "pairing_error err =
     (let code = (case err_code err of None \<Rightarrow> [] | Some cd \<Rightarrow> cd)
      in code = ''PAIRING_REQUIRED'' \<or> code = ''DEVICE_IDENTITY_REQUIRED''
         \<or> string_includes (toLowerCase (err_message err)) ''pairing required'')"

text \<open>The \<open>catch\<close> block of \<open>sendConnect\<close>.\<close>

definition sendConnect_catch :: "Err \<Rightarrow> client \<Rightarrow> client" where
  "sendConnect_catch err c =
     (if pairing_error err
      then ws_close 1000 ''pairing required'' (emit PairingRequired (setState Pairing_required c))
      else ws_close 3008 ''connect failed'' (emit (ConnectError err) c))"

text \<open>\<open>String.prototype.trim\<close>: white space and line terminators are removed at both ends.
  Among the characters of the model these are the space, \<open>U+0009\<close> to \<open>U+000D\<close> and the
  no-break space \<open>U+00A0\<close>; the others that JavaScript removes (\<open>U+FEFF\<close>, \<open>U+2028\<close>,
  \<open>U+2029\<close> and the space separators of Unicode) lie above \<open>U+00FF\<close>.\<close>

definition trim :: "string \<Rightarrow> string" where
  "trim s =
     (let sp = (\<lambda>ch. ch \<in> set [CHR '' '', CHR 0x09, CHR 0x0A, CHR 0x0B, CHR 0x0C, CHR 0x0D,
                                  CHR 0xA0])
      in rev (dropWhile sp (rev (dropWhile sp s))))"

definition handleEvent :: "GatewayEvent \<Rightarrow> env \<Rightarrow> client \<Rightarrow> client" where
  "handleEvent evt e c =
     (case evt of
        ConnectChallenge nonce \<Rightarrow>
          (if nonce = None \<or> nonce = Some []
           then ws_close 3008 ''missing nonce in connect challenge'' c
           else sendConnect e (c\<lparr>connectNonce := Some (trim (the nonce))\<rparr>))
      | Tick \<Rightarrow> c\<lparr>lastTick := Some (env_now e)\<rparr>
      | Chat payload \<Rightarrow> (case payload of None \<Rightarrow> c | Some p \<Rightarrow> emit (ChatEvent p) c)
      | OtherEvent name \<Rightarrow> c)"

definition handleMessage :: "Frame \<Rightarrow> env \<Rightarrow> client \<Rightarrow> client" where
  "handleMessage raw e c =
     (case raw of
        Unparsable \<Rightarrow> c
      | EventFrame evt \<Rightarrow> handleEvent evt e c
      | ResponseFrame res \<Rightarrow> handleResponse res c
      | OtherFrame \<Rightarrow> c)"

text \<open>The callback of the connect timeout.\<close>

definition connectTimer_fired :: "client \<Rightarrow> client" where
  "connectTimer_fired c =
     (if \<not> connectTimer c then c
      else (let c1 = c\<lparr>connectTimer := False\<rparr>
            in if \<not> connectSent c1 \<and> (case ws c1 of None \<Rightarrow> False
                                        | Some i \<Rightarrow> readyStateOf c1 i = OPEN)
               then ws_close 3008 ''connect challenge timeout'' c1
               else c1))"

text \<open>The callback of the reconnect timeout.\<close>

definition reconnectTimer_fired :: "env \<Rightarrow> client \<Rightarrow> client" where
  "reconnectTimer_fired e c =
     (if reconnectTimer c = None then c
      else (let c1 = c\<lparr>reconnectTimer := None\<rparr>
            in if \<not> closed c1 then connect e c1 else c1))"

text \<open>The callback of the keep-alive interval. \<open>elapsed > tickIntervalMs * 2.5\<close> is
  compared exactly, as \<open>2 * elapsed > 5 * tickIntervalMs\<close>.\<close>

definition tickTimer_fired :: "env \<Rightarrow> client \<Rightarrow> client" where
  "tickTimer_fired e c =
     (if tickTimer c = None then c
      else if closed c then c
      else if lastTick c = None \<or> lastTick c = Some 0 then c
      else if 2 * (env_now e - the (lastTick c)) > 5 * tickIntervalMs c
           then ws_close 4000 ''tick timeout'' c
      else c)"

subsection \<open>Socket handlers\<close>

definition ws_onopen :: "client \<Rightarrow> client" where
  "ws_onopen c = queueConnectTimeout (setState Authenticating c)"

definition ws_onmessage :: "Frame \<Rightarrow> env \<Rightarrow> client \<Rightarrow> client" where
  "ws_onmessage raw e c = handleMessage raw e c"

definition ws_onclose :: "client \<Rightarrow> client" where
  "ws_onclose c =
     (let c1 = flushPending (new_Error ''WebSocket closed'') (c\<lparr>ws := None\<rparr>)
      in if \<not> closed c1 then scheduleReconnect (setState Reconnecting c1)
         else setState Disconnected c1)"

subsection \<open>Public methods\<close>

definition start :: "env \<Rightarrow> client \<Rightarrow> client" where
  "start e c = (if closed c then c else connect e c)"

definition stop :: "client \<Rightarrow> client" where
  "stop c =
     (let c1 = clearTimers (c\<lparr>closed := True\<rparr>);
          c2 = (case ws c1 of
                  None \<Rightarrow> c1
                | Some i \<Rightarrow> (socket_close i (Some 1000) ''client stopped'' c1)\<lparr>ws := None\<rparr>)
      in setState Disconnected (flushPending (new_Error ''client stopped'') c2))"

definition restart :: "env \<Rightarrow> client \<Rightarrow> client" where
  "restart e c =
     (let c1 = c\<lparr>closed := False\<rparr>;
          c2 = (case ws c1 of
                  None \<Rightarrow> c1
                | Some i \<Rightarrow> (socket_close i (Some 1000) ''client restarting'' c1)\<lparr>ws := None\<rparr>)
      in connect e (flushPending (new_Error ''client restarting'') (clearTimers c2)))"

subsection \<open>Runs\<close>

text \<open>
  Everything that makes the client run: a call of a public method, a socket event (for the
  socket of that number), a timer going off, or the signature arriving. A socket opens only
  while it is connecting, delivers messages only while open or closing, and closes once. A
  handler runs to its end; then the continuations it has queued run, in order.
\<close>

datatype event =
    Start | Stop | Restart
  | Request string int
  | SocketOpen nat
  | SocketMessage nat Frame
  | SocketClose nat
  | ConnectTimerFired
  | ReconnectTimerFired
  | TickTimerFired
  | RpcTimerFired nat
  | SignPayloadSettled

definition handle :: "env \<Rightarrow> event \<Rightarrow> client \<Rightarrow> client" where
  "handle e ev c =
     (case ev of
        Start \<Rightarrow> start e c
      | Stop \<Rightarrow> stop c
      | Restart \<Rightarrow> restart e c
      | Request method timeoutMs \<Rightarrow> request None method timeoutMs e c
      | SocketOpen i \<Rightarrow>
          (if readyStateOf c i = CONNECTING \<and> i < length (sockets c)
           then ws_onopen (c\<lparr>sockets := (sockets c)[i := OPEN]\<rparr>) else c)
      | SocketMessage i raw \<Rightarrow>
          (if readyStateOf c i = OPEN \<or> readyStateOf c i = CLOSING
           then ws_onmessage raw e c else c)
      | SocketClose i \<Rightarrow>
          (if readyStateOf c i \<noteq> CLOSED
           then ws_onclose (c\<lparr>sockets := (sockets c)[i := CLOSED]\<rparr>) else c)
      | ConnectTimerFired \<Rightarrow> connectTimer_fired c
      | ReconnectTimerFired \<Rightarrow> reconnectTimer_fired e c
      | TickTimerFired \<Rightarrow> tickTimer_fired e c
      | RpcTimerFired k \<Rightarrow> rpcTimer_fired k c
      | SignPayloadSettled \<Rightarrow> signPayload_settled e c)"

definition run_job :: "env \<Rightarrow> job \<Rightarrow> client \<Rightarrow> client" where
  "run_job e j c =
     (case j of
        HelloOk hasId helloOk \<Rightarrow> sendConnect_ok hasId helloOk e c
      | ConnectFailed err \<Rightarrow> sendConnect_catch err c)"

definition run_jobs :: "env \<Rightarrow> client \<Rightarrow> client" where
  "run_jobs e c = fold (run_job e) (jobs c) (c\<lparr>jobs := []\<rparr>)"

definition step :: "env \<Rightarrow> event \<Rightarrow> client \<Rightarrow> client" where
  "step e ev c = run_jobs e (handle e ev c)"

definition run :: "(env \<times> event) list \<Rightarrow> client \<Rightarrow> client" where
  "run evs c = fold (\<lambda>(e, ev) c'. step e ev c') evs c"

section \<open>Observations, invariants and example inputs\<close>

text \<open>An example event of run \<open>run-1\<close> with one text block.\<close>

definition ev_example :: "ChatState \<Rightarrow> string \<Rightarrow> ChatEventPayload" where
  "ev_example st txt = \<lparr>ev_runId = ''run-1'', ev_sessionKey = ''main:123:abc'', ev_seq = 0,
      ev_state = st,
      ev_message = Some \<lparr>msg_role = ''assistant'',
         msg_content = [\<lparr>block_type = ''text'', block_text = Some txt\<rparr>], msg_timestamp = 0\<rparr>,
      ev_errorMessage = None\<rparr>"

text \<open>The states passed to \<open>onStateChange\<close>, in order.\<close>

fun notified :: "effect list \<Rightarrow> WsConnectionState list" where
  "notified [] = []"
| "notified (StateChange s # es) = s # notified es"
| "notified (e # es) = notified es"

text \<open>The notifications so far, preceded by the initial state, never repeat a state twice
  in a row, and the last of them is the current state.\<close>

definition coherent :: "client \<Rightarrow> bool" where
  "coherent c = (distinct_adj (Disconnected # notified (trace c))
                 \<and> last (Disconnected # notified (trace c)) = state c)"

text \<open>Example surroundings and frames: the clock at 5000, a gateway on localhost, no device
  identity; a \<open>connect\<close> response that demands pairing, and one that succeeds with a tick
  interval of 1000 ms.\<close>

definition env0 :: env where
  "env0 = \<lparr>env_now = 5000, env_url = ''http://localhost:18789/'', env_throws = False,
            env_uuid = ''u1'', env_hasIdentity = False\<rparr>"

definition pairing_res :: GatewayResponse where
  "pairing_res = \<lparr>res_id = ''u1'', res_ok = False, res_payload = None,
     res_error = Some \<lparr>error_code = Some ''PAIRING_REQUIRED'',
                        error_message = ''device not paired''\<rparr>\<rparr>"

definition hello_res :: GatewayResponse where
  "hello_res = \<lparr>res_id = ''u1'', res_ok = True,
     res_payload = Some \<lparr>payload_runId = None, auth_deviceToken = None, auth_role = None,
                          auth_scopes = None, policy_tickIntervalMs = Some 1000\<rparr>,
     res_error = None\<rparr>"

text \<open>The client is started, the socket opens, the challenge arrives and the \<open>connect\<close>
  request is sent.\<close>

definition handshake :: "(env \<times> event) list" where
  "handshake = [(env0, Start), (env0, SocketOpen 0),
                (env0, SocketMessage 0 (EventFrame (ConnectChallenge (Some '' abc ''))))]"

text \<open>A run of consecutive connection failures: the client is started, and \<open>n\<close> times the
  socket of the current attempt closes and the reconnect timer fires.\<close>

fun failed_attempts :: "nat \<Rightarrow> (env \<times> event) list" where
  "failed_attempts 0 = [(env0, Start)]"
| "failed_attempts (Suc n) =
     failed_attempts n @ [(env0, SocketClose n), (env0, ReconnectTimerFired)]"

text \<open>A connected client: the handshake, answered by \<open>hello_res\<close> at time 5000.\<close>

definition connected_client :: client where
  "connected_client = run (handshake @ [(env0, SocketMessage 0 (ResponseFrame hello_res))]) initial"

text \<open>How often the promise of call \<open>k\<close> has been settled, by \<open>resolve\<close> or by \<open>reject\<close>.\<close>

fun settled :: "nat \<Rightarrow> effect list \<Rightarrow> nat" where
  "settled k [] = 0"
| "settled k (Resolve j p # es) = (if j = k then 1 else 0) + settled k es"
| "settled k (Reject j er # es) = (if j = k then 1 else 0) + settled k es"
| "settled k (e # es) = settled k es"

text \<open>Every call made so far has either a live timeout and an unsettled promise, or no
  live timeout and a promise settled once; no other timeout is live.\<close>

definition accounted :: "client \<Rightarrow> bool" where
  "accounted c =
     ((\<forall>k. settled k (trace c)
            = (if k < calls c \<and> map_of (rpcTimers c) k = None then 1 else 0))
      \<and> (\<forall>k t. map_of (rpcTimers c) k = Some t \<longrightarrow> k < calls c))"

text \<open>Every pending entry has the live timeout of its call, and that timeout names its id.\<close>

definition linked :: "client \<Rightarrow> bool" where
  "linked c =
     (distinct (map fst (pending c))
      \<and> (\<forall>i k. map_of (pending c) i = Some k \<longrightarrow>
             (\<exists>t. map_of (rpcTimers c) k = Some t \<and> t_id t = i)))"

definition rpc_inv :: "client \<Rightarrow> bool" where
  "rpc_inv c = (accounted c \<and> linked c)"

text \<open>A client with a \<open>chat.send\<close> request in flight, and a late response to it.\<close>

definition requesting_client :: client where
  "requesting_client =
     run (handshake @ [(env0\<lparr>env_uuid := ''u2''\<rparr>, Request ''chat.send'' 60000)]) initial"

definition late_res :: GatewayResponse where
  "late_res = \<lparr>res_id = ''u2'', res_ok = True, res_payload = None, res_error = None\<rparr>"

section \<open>Properties of the device identity\<close>

lemma split_at_sep:
  "c \<notin> set s \<Longrightarrow> c \<notin> set t \<Longrightarrow> s @ c # u = t @ c # v \<Longrightarrow> s = t \<and> u = v"
proof (induction s arbitrary: t)
  case Nil
  then show ?case by (cases t) auto
next
  case (Cons a s)
  then show ?case by (cases t) auto
qed

lemma join_comma_inj:
  "length xs = length ys \<Longrightarrow> comma_free xs \<Longrightarrow> comma_free ys \<Longrightarrow>
   join '','' xs = join '','' ys \<Longrightarrow> xs = ys"
proof (induction xs ys rule: list_induct2)
  case Nil
  then show ?case by simp
next
  case (Cons x xs y ys)
  show ?case
  proof (cases xs)
    case Nil
    with Cons show ?thesis by simp
  next
    case (Cons x' xs')
    then obtain y' ys' where ys: "ys = y' # ys'" using Cons.hyps by (cases ys) auto
    from Cons.prems Cons ys have "x @ CHR '','' # join '','' xs = y @ CHR '','' # join '','' ys"
      by simp
    moreover have "CHR '','' \<notin> set x" "CHR '','' \<notin> set y"
      using Cons.prems by (simp_all add: comma_free_def)
    ultimately have "x = y \<and> join '','' xs = join '','' ys" by (rule split_at_sep[rotated 2])
    with Cons.IH Cons.prems show ?thesis by (simp add: comma_free_def)
  qed
qed

lemma payload_format:
  "buildDeviceAuthPayload d c m r ss ts tok n =
     ''v2|'' @ d @ ''|'' @ c @ ''|'' @ m @ ''|'' @ r @ ''|'' @ join '','' ss @ ''|''
       @ String_number ts @ ''|'' @ (case tok of None \<Rightarrow> [] | Some t \<Rightarrow> t) @ ''|'' @ n"
  by (simp add: buildDeviceAuthPayload_def)

lemma payload_scopes_eq:
  "buildDeviceAuthPayload d c m r xs ts tok n = buildDeviceAuthPayload d c m r ys ts tok n
   \<longleftrightarrow> join '','' xs = join '','' ys"
  by (simp add: payload_format)

text \<open>
  Claim C6, as amended. For every input whose \<open>signedAtMs\<close> is a safe integer, as the
  \<open>Date.now()\<close> of the call site is, \<open>buildDeviceAuthPayload\<close> returns exactly the
  pipe-delimited string: the tag \<open>v2\<close>, the device id, client id, client mode and role, the
  scopes joined by commas in the given order, \<open>signedAtMs\<close> in decimal digits, the token
  (empty when absent) and the nonce. The comma-joined scopes occur in it as given, and two
  scope lists of the same length whose scopes contain no comma give different payloads
  whenever they differ, in particular when two distinct scopes are swapped.
\<close>

theorem buildDeviceAuthPayload_format:
  assumes "Number_isSafeInteger ts"
  shows "buildDeviceAuthPayload d c m r ss ts tok n =
     ''v2|'' @ d @ ''|'' @ c @ ''|'' @ m @ ''|'' @ r @ ''|'' @ join '','' ss @ ''|''
       @ String_number ts @ ''|'' @ (case tok of None \<Rightarrow> [] | Some t \<Rightarrow> t) @ ''|'' @ n
   \<and> (length xs = length ys \<and> comma_free xs \<and> comma_free ys \<and> xs \<noteq> ys \<longrightarrow>
        buildDeviceAuthPayload d c m r xs ts tok n \<noteq> buildDeviceAuthPayload d c m r ys ts tok n)
   \<and> (\<exists>pre post. buildDeviceAuthPayload d c m r ss ts tok n = pre @ join '','' ss @ post)"
proof (intro conjI impI)
  show "buildDeviceAuthPayload d c m r ss ts tok n =
     ''v2|'' @ d @ ''|'' @ c @ ''|'' @ m @ ''|'' @ r @ ''|'' @ join '','' ss @ ''|''
       @ String_number ts @ ''|'' @ (case tok of None \<Rightarrow> [] | Some t \<Rightarrow> t) @ ''|'' @ n"
    by (rule payload_format)
next
  assume a: "length xs = length ys \<and> comma_free xs \<and> comma_free ys \<and> xs \<noteq> ys"
  show "buildDeviceAuthPayload d c m r xs ts tok n \<noteq> buildDeviceAuthPayload d c m r ys ts tok n"
  proof
    assume "buildDeviceAuthPayload d c m r xs ts tok n = buildDeviceAuthPayload d c m r ys ts tok n"
    then have "join '','' xs = join '','' ys" by (simp only: payload_scopes_eq)
    with a show False using join_comma_inj by blast
  qed
next
  have "buildDeviceAuthPayload d c m r ss ts tok n =
      (''v2|'' @ d @ ''|'' @ c @ ''|'' @ m @ ''|'' @ r @ ''|'') @ join '','' ss @ (''|''
       @ String_number ts @ ''|'' @ (case tok of None \<Rightarrow> [] | Some t \<Rightarrow> t) @ ''|'' @ n)"
    by (simp add: payload_format)
  then show "\<exists>pre post. buildDeviceAuthPayload d c m r ss ts tok n = pre @ join '','' ss @ post"
    by blast
qed

theorem buildDeviceAuthPayload_format_witness:
  "Number_isSafeInteger 1234567890000
   \<and> length [''scope-b'', ''scope-a''] = length [''scope-a'', ''scope-b'']
   \<and> comma_free [''scope-b'', ''scope-a''] \<and> comma_free [''scope-a'', ''scope-b'']
   \<and> [''scope-b'', ''scope-a''] \<noteq> [''scope-a'', ''scope-b'']
   \<and> buildDeviceAuthPayload ''test-device-id'' ''test-client'' ''webchat'' ''operator''
        [''scope-b'', ''scope-a''] 1234567890000 (Some ''test-token'') ''test-nonce''
     = ''v2|test-device-id|test-client|webchat|operator|scope-b,scope-a|1234567890000|test-token|test-nonce''
   \<and> buildDeviceAuthPayload ''test-device-id'' ''test-client'' ''webchat'' ''operator''
        [''scope-b'', ''scope-a''] 1234567890000 (Some ''test-token'') ''test-nonce''
     \<noteq> buildDeviceAuthPayload ''test-device-id'' ''test-client'' ''webchat'' ''operator''
        [''scope-a'', ''scope-b''] 1234567890000 (Some ''test-token'') ''test-nonce''"
proof -
  have safe: "Number_isSafeInteger 1234567890000"
    by (simp add: Number_isSafeInteger_def)
  have hyp: "length [''scope-b'', ''scope-a''] = length [''scope-a'', ''scope-b'']
     \<and> comma_free [''scope-b'', ''scope-a''] \<and> comma_free [''scope-a'', ''scope-b'']
     \<and> [''scope-b'', ''scope-a''] \<noteq> [''scope-a'', ''scope-b'']"
    by (simp add: comma_free_def)
  have digits: "String_number 1234567890000 = ''1234567890000''"
    by (simp add: String_number_def)
  have "buildDeviceAuthPayload ''test-device-id'' ''test-client'' ''webchat'' ''operator''
        [''scope-b'', ''scope-a''] 1234567890000 (Some ''test-token'') ''test-nonce''
     = ''v2|test-device-id|test-client|webchat|operator|scope-b,scope-a|1234567890000|test-token|test-nonce''"
    using buildDeviceAuthPayload_format [OF safe, THEN conjunct1,
        of "''test-device-id''" "''test-client''" "''webchat''" "''operator''"
           "[''scope-b'', ''scope-a'']" "Some ''test-token''" "''test-nonce''"]
    by (simp add: digits)
  with buildDeviceAuthPayload_format [OF safe, THEN conjunct2, THEN conjunct1, THEN mp, OF hyp]
    safe hyp
  show ?thesis by blast
qed

text \<open>
  Claim C6 as stated fails where a scope contains a comma: swapping the two distinct
  scopes \<open>x\<close> and \<open>x,x\<close> leaves the payload unchanged.
\<close>

theorem buildDeviceAuthPayload_swap_counterexample:
  "[''x'', ''x,x''] \<noteq> [''x,x'', ''x''] \<and>
   buildDeviceAuthPayload ''dev'' ''webchat-ui'' ''webchat'' ''operator'' [''x'', ''x,x''] 0 None ''n''
   = buildDeviceAuthPayload ''dev'' ''webchat-ui'' ''webchat'' ''operator'' [''x,x'', ''x''] 0 None ''n''"
  by (simp add: buildDeviceAuthPayload_def)

lemma join_Nil_concat: "join [] xs = concat xs"
proof (induction xs)
  case Nil
  show ?case by simp
next
  case (Cons x xs)
  then show ?case by (cases xs) simp_all
qed

lemma hex_byte:
  assumes "n < 256"
  shows "padStart 2 (CHR ''0'') (toString16 n)
         = [''0123456789abcdef'' ! (n div 16), ''0123456789abcdef'' ! (n mod 16)]"
proof (cases "n < 16")
  case True
  then show ?thesis by (simp add: padStart_def)
next
  case False
  with assms have "n div 16 < 16" by simp
  with False show ?thesis by (simp add: padStart_def)
qed

lemma hexEncode_concat:
  "hexEncode bs = concat (map (\<lambda>b. [''0123456789abcdef'' ! (unat b div 16),
                                       ''0123456789abcdef'' ! (unat b mod 16)]) bs)"
proof -
  have "unat b < 256" for b :: byte
    using unsigned_less [of b, where ?'a = nat] by simp
  then show ?thesis
    by (simp add: hexEncode_def join_Nil_concat hex_byte del: toString16.simps)
qed

lemma hexEncode_lowercase_hex:
  "length (hexEncode bs) = 2 * length bs \<and> set (hexEncode bs) \<subseteq> set ''0123456789abcdef''"
proof (induction bs)
  case Nil
  show ?case by (simp add: hexEncode_concat)
next
  case (Cons b bs)
  have lt: "unat b div 16 < 16" using unsigned_less [of b, where ?'a = nat] by simp
  have "''0123456789abcdef'' ! k \<in> set ''0123456789abcdef''" if "k < 16" for k
    using that by (intro nth_mem) simp
  with lt have "''0123456789abcdef'' ! (unat b div 16) \<in> set ''0123456789abcdef''"
    and "''0123456789abcdef'' ! (unat b mod 16) \<in> set ''0123456789abcdef''"
    by simp_all
  with Cons show ?case by (simp add: hexEncode_concat)
qed

subsection \<open>Base64url encoding and decoding are inverse\<close>

lemma base64_chars_facts:
  "length base64_chars = 64" "distinct base64_chars"
  "CHR ''='' \<notin> set base64_chars" "CHR ''-'' \<notin> set base64_chars"
  "CHR ''_'' \<notin> set base64_chars"
  "CHR 0x09 \<notin> set base64_chars" "CHR 0x0A \<notin> set base64_chars"
  "CHR 0x0C \<notin> set base64_chars" "CHR 0x0D \<notin> set base64_chars"
  "CHR '' '' \<notin> set base64_chars"
  by (simp_all add: base64_chars_def)

lemma base64_value_nth: "v < 64 \<Longrightarrow> base64_value (base64_chars ! v) = Some v"
  unfolding base64_value_def
  using map_of_zip_nth [of base64_chars "[0..<64]" v]
  by (simp add: base64_chars_facts)

lemma base64_values_map:
  "\<forall>v\<in>set vs. v < 64 \<Longrightarrow> base64_values (map (\<lambda>v. base64_chars ! v) vs) = Some vs"
  by (induction vs) (simp_all add: base64_value_nth)


lemma group_bounds:
  "(a::nat) < 256 \<Longrightarrow> a div 4 < 64" "(b::nat) < 256 \<Longrightarrow> a mod 4 * 16 + b div 16 < 64"
  "(c::nat) < 256 \<Longrightarrow> b mod 16 * 4 + c div 64 < 64" "(c::nat) mod 64 < 64"
  "a mod 4 * 16 < 64" "b mod 16 * 4 < 64"
  by (simp_all add: less_mult_imp_div_less)

lemma group_split:
  "(b::nat) < 256 \<Longrightarrow> (a mod 4 * 16 + b div 16) div 16 = a mod 4"
  "(b::nat) < 256 \<Longrightarrow> (a mod 4 * 16 + b div 16) mod 16 = b div 16"
  "(c::nat) < 256 \<Longrightarrow> (b mod 16 * 4 + c div 64) div 4 = b mod 16"
  "(c::nat) < 256 \<Longrightarrow> (b mod 16 * 4 + c div 64) mod 4 = c div 64"
  by (simp_all add: div_add1_eq less_mult_imp_div_less)

lemma encode_groups_bound:
  "\<forall>b\<in>set bs. b < 256 \<Longrightarrow> \<forall>v\<in>set (encode_groups bs). v < 64"
  by (induction bs rule: encode_groups.induct) (simp_all add: group_bounds)

lemma group_join:
  assumes "(a::nat) < 256" "(b::nat) < 256" "(c::nat) < 256"
  shows "a div 4 * 4 + (a mod 4 * 16 + b div 16) div 16 = a"
    "(a mod 4 * 16 + b div 16) mod 16 * 16 + (b mod 16 * 4 + c div 64) div 4 = b"
    "(b mod 16 * 4 + c div 64) mod 4 * 64 + c mod 64 = c"
    "(a mod 4 * 16 + b div 16) mod 16 * 16 + (b mod 16 * 4) div 4 = b"
    "a div 4 * 4 + (a mod 4 * 16) div 16 = a"
  using assms by (simp_all only: group_split) simp_all

lemma decode_encode_groups:
  "\<forall>b\<in>set bs. b < 256 \<Longrightarrow> decode_groups (encode_groups bs) = bs"
proof (induction bs rule: encode_groups.induct)
  case (1 a b c bs)
  then have lt: "a < 256" "b < 256" "c < 256" and ih: "decode_groups (encode_groups bs) = bs"
    by simp_all
  show ?case
    by (simp only: encode_groups.simps decode_groups.simps append_Cons append_Nil
        group_join [OF lt] ih)
next
  case (2 a b)
  then have lt: "a < 256" "b < 256" by simp_all
  show ?case
    by (simp only: encode_groups.simps decode_groups.simps group_join [OF lt lt(2)])
next
  case (3 a)
  then have lt: "a < 256" by simp
  show ?case
    by (simp only: encode_groups.simps decode_groups.simps group_join [OF lt lt lt])
next
  case 4
  show ?case by simp
qed

lemma length_encode_groups:
  "length (encode_groups bs) mod 4 = (if length bs mod 3 = 0 then 0 else length bs mod 3 + 1)"
  by (induction bs rule: encode_groups.induct) simp_all


lemma dropWhile_none: "\<forall>x\<in>set xs. \<not> P x \<Longrightarrow> dropWhile P xs = xs"
  by (cases xs) simp_all

lemma strip_trailing_padding:
  assumes "CHR ''='' \<notin> set u"
  shows "rev (dropWhile (\<lambda>ch. ch = CHR ''='') (rev (u @ replicate p (CHR ''='')))) = u"
proof -
  have "dropWhile (\<lambda>ch. ch = CHR ''='') (replicate p (CHR ''='') @ rev u)
        = dropWhile (\<lambda>ch. ch = CHR ''='') (rev u)"
    by (rule dropWhile_append2) simp
  also have "\<dots> = rev u" using assms by (intro dropWhile_none) auto
  finally show ?thesis by simp
qed

lemma remove_padding_append:
  assumes "CHR ''='' \<notin> set u" and "q \<le> 2"
  shows "remove_padding (u @ replicate q (CHR ''='')) = u"
proof (cases u rule: rev_cases)
  case Nil
  consider "q = 0" | "q = 1" | "q = 2" using assms(2) by linarith
  then show ?thesis
    by cases (simp_all add: Nil remove_padding_def numeral_2_eq_2)
next
  case (snoc r y)
  then have y: "y \<noteq> CHR ''=''" using assms(1) by auto
  consider "q = 0" | "q = 1" | "q = 2" using assms(2) by linarith
  then show ?thesis
  proof cases
    case 1
    with y show ?thesis
      by (cases r rule: rev_cases) (simp_all add: snoc remove_padding_def)
  next
    case 2
    with y show ?thesis by (simp add: snoc remove_padding_def)
  next
    case 3
    then show ?thesis by (simp add: snoc remove_padding_def numeral_2_eq_2)
  qed
qed

lemma url_safe_back:
  assumes "set u \<subseteq> set base64_chars"
  shows "replaceAll (CHR ''_'') (CHR ''/'')
           (replaceAll (CHR ''-'') (CHR ''+'')
              (replaceAll (CHR ''/'') (CHR ''_'') (replaceAll (CHR ''+'') (CHR ''-'') u))) = u"
proof -
  have "ch \<noteq> CHR ''-'' \<and> ch \<noteq> CHR ''_''" if "ch \<in> set u" for ch
    using that assms base64_chars_facts(4,5) by auto
  then show ?thesis
    unfolding replaceAll_def by (simp add: map_idI)
qed

lemma url_safe_no_padding:
  assumes "set u \<subseteq> set base64_chars"
  shows "CHR ''='' \<notin> set (replaceAll (CHR ''/'') (CHR ''_'') (replaceAll (CHR ''+'') (CHR ''-'') u))"
  using assms base64_chars_facts(3) unfolding replaceAll_def by auto

lemma replaceAll_padding:
  "a \<noteq> CHR ''='' \<Longrightarrow> replaceAll a b (u @ replicate p (CHR ''=''))
     = replaceAll a b u @ replicate p (CHR ''='')"
  by (simp add: replaceAll_def)

lemma length_replaceAll [simp]: "length (replaceAll a b u) = length u"
  by (simp add: replaceAll_def)

lemma atob_padded:
  assumes "\<forall>v\<in>set vs. v < 64" and "length vs mod 4 \<noteq> 1"
  shows "atob (map (\<lambda>v. base64_chars ! v) vs
               @ replicate ((4 - length vs mod 4) mod 4) (CHR ''=''))
         = Some (map char_of (decode_groups vs))"
proof -
  define u where "u = map (\<lambda>v. base64_chars ! v) vs"
  define q where "q = (4 - length vs mod 4) mod 4"
  have sub: "set u \<subseteq> set base64_chars"
    using assms(1) by (auto simp add: u_def base64_chars_facts(1))
  have ne: "CHR ''='' \<notin> set u" using sub base64_chars_facts(3) by auto
  have ws: "filter (\<lambda>ch. ch \<notin> set [CHR 0x09, CHR 0x0A, CHR 0x0C, CHR 0x0D, CHR '' ''])
              (u @ replicate q (CHR ''='')) = u @ replicate q (CHR ''='')"
    using sub base64_chars_facts(6-10) by (intro filter_True) auto
  have m: "length vs mod 4 = 0 \<or> length vs mod 4 = 2 \<or> length vs mod 4 = 3"
    using assms(2) mod_less_divisor [of 4 "length vs"] by linarith
  then have q: "q \<le> 2" unfolding q_def by auto
  have "(length vs + q) mod 4 = (length vs mod 4 + q) mod 4"
    by (simp only: mod_add_left_eq)
  also have "\<dots> = 0" using m unfolding q_def by auto
  finally have len: "(length u + q) mod 4 = 0" by (simp add: u_def)
  have bv: "base64_values u = Some vs" unfolding u_def by (rule base64_values_map [OF assms(1)])
  have l1: "length u mod 4 \<noteq> 1" using assms(2) by (simp add: u_def)
  have "atob (u @ replicate q (CHR ''='')) = Some (map char_of (decode_groups vs))"
    unfolding atob_def Let_def ws
    using l1 by (simp add: len remove_padding_append [OF ne q] bv)
  then show ?thesis by (simp only: u_def q_def)
qed

lemma byte_char_roundtrip: "(of_char (char_of (unat b)) :: byte) = b"
proof -
  have lt: "unat b < 256" using unsigned_less [of b, where ?'a = nat] by simp
  have "(of_char (char_of (unat b)) :: byte) = of_nat (of_char (char_of (unat b)))"
    by (simp only: of_nat_of_char)
  also have "(of_char (char_of (unat b)) :: nat) = unat b" using lt by simp
  finally show ?thesis by simp
qed

lemma encode_groups_in_alphabet:
  "set (map (\<lambda>v. base64_chars ! v) (encode_groups (map unat (bs :: byte list))))
     \<subseteq> set base64_chars"
proof -
  have "\<forall>n\<in>set (map unat bs). n < 256"
    using unsigned_less [where ?'a = nat and ?'b = 8] by auto
  then have "\<forall>v\<in>set (encode_groups (map unat bs)). v < 64" by (rule encode_groups_bound)
  then show ?thesis by (auto simp add: base64_chars_facts(1))
qed

lemma base64UrlEncode_groups:
  "base64UrlEncode bs
   = replaceAll (CHR ''/'') (CHR ''_'') (replaceAll (CHR ''+'') (CHR ''-'')
       (map (\<lambda>v. base64_chars ! v) (encode_groups (map unat bs))))"
proof -
  define ns where "ns = map unat bs"
  define u where "u = map (\<lambda>v. base64_chars ! v) (encode_groups ns)"
  have n256: "\<forall>n\<in>set ns. n < 256"
    using unsigned_less [where ?'a = nat and ?'b = 8] by (auto simp add: ns_def)
  have ns: "map of_char (map (\<lambda>b. char_of (unat b)) bs) = ns"
    using n256 by (simp add: ns_def comp_def)
  have sub: "set u \<subseteq> set base64_chars"
    unfolding u_def ns_def by (rule encode_groups_in_alphabet)
  have "replaceAll (CHR ''/'') (CHR ''_'') (replaceAll (CHR ''+'') (CHR ''-'')
           (btoa (map (\<lambda>b. char_of (unat b)) bs)))
        = replaceAll (CHR ''/'') (CHR ''_'') (replaceAll (CHR ''+'') (CHR ''-'') u)
          @ replicate ((3 - length bs mod 3) mod 3) (CHR ''='')"
    unfolding btoa_def ns by (simp add: replaceAll_padding u_def)
  then have "base64UrlEncode bs
      = replaceAll (CHR ''/'') (CHR ''_'') (replaceAll (CHR ''+'') (CHR ''-'') u)"
    unfolding base64UrlEncode_def Let_def
    by (simp only: strip_trailing_padding [OF url_safe_no_padding [OF sub]])
  then show ?thesis by (simp only: u_def ns_def)
qed

lemma base64UrlDecode_Encode: "base64UrlDecode (base64UrlEncode bs) = Some bs"
proof -
  define ns where "ns = map unat bs"
  define vs where "vs = encode_groups ns"
  define u where "u = map (\<lambda>v. base64_chars ! v) vs"
  have n256: "\<forall>n\<in>set ns. n < 256"
    using unsigned_less [where ?'a = nat and ?'b = 8] by (auto simp add: ns_def)
  have v64: "\<forall>v\<in>set vs. v < 64" unfolding vs_def by (rule encode_groups_bound [OF n256])
  have sub: "set u \<subseteq> set base64_chars"
    unfolding u_def vs_def ns_def by (rule encode_groups_in_alphabet)
  have m: "length vs mod 4 \<noteq> 1" by (simp add: vs_def length_encode_groups)
  have enc: "base64UrlEncode bs
      = replaceAll (CHR ''/'') (CHR ''_'') (replaceAll (CHR ''+'') (CHR ''-'') u)"
    unfolding u_def vs_def ns_def by (rule base64UrlEncode_groups)
  have "base64UrlDecode (base64UrlEncode bs)
        = (case atob (u @ replicate ((4 - length vs mod 4) mod 4) (CHR ''='')) of
             None \<Rightarrow> None | Some binary \<Rightarrow> Some (map (\<lambda>ch. of_char ch) binary))"
    unfolding base64UrlDecode_def Let_def enc url_safe_back [OF sub]
    by (simp add: u_def)
  also have "\<dots> = Some (map (\<lambda>ch. of_char ch) (map char_of (decode_groups vs)))"
    using atob_padded [OF v64 m] by (simp add: u_def)
  also have "decode_groups vs = ns" unfolding vs_def by (rule decode_encode_groups [OF n256])
  also have "map (\<lambda>ch. of_char ch) (map char_of ns) = bs"
    by (simp add: ns_def comp_def byte_char_roundtrip map_idI)
  finally show ?thesis .
qed

lemma base64UrlEncode_url_safe:
  "CHR ''+'' \<notin> set (base64UrlEncode bs) \<and> CHR ''/'' \<notin> set (base64UrlEncode bs)
   \<and> CHR ''='' \<notin> set (base64UrlEncode bs)"
proof -
  have "CHR ''+'' \<notin> set (replaceAll (CHR ''/'') (CHR ''_'') (replaceAll (CHR ''+'') (CHR ''-'') u))"
    and "CHR ''/'' \<notin> set (replaceAll (CHR ''/'') (CHR ''_'') (replaceAll (CHR ''+'') (CHR ''-'') u))"
    for u by (auto simp add: replaceAll_def)
  then show ?thesis
    unfolding base64UrlEncode_groups
    using url_safe_no_padding [OF encode_groups_in_alphabet [of bs]] by simp
qed

subsection \<open>Validation\<close>

text \<open>
  Claim C7, as amended. When the stored public key is text that \<open>base64UrlDecode\<close> decodes,
  \<open>validateDeviceIdentity\<close> returns the identity with \<open>deviceId\<close> set to the lowercase
  hexadecimal digest of the decoded key (two digits per byte): the identity itself when the
  stored id already is that value, and otherwise a copy that differs in \<open>deviceId\<close> only,
  with \<open>publicKey\<close>, \<open>privateKey\<close>, \<open>version\<close> and \<open>createdAtMs\<close> as stored. A key
  written by \<open>base64UrlEncode\<close> decodes to the bytes it was written from, so an identity
  made by \<open>generateDeviceIdentity\<close> is returned as it is. When the stored key does not
  decode, the call returns no identity: it rejects with the error of \<open>atob\<close>.
\<close>

theorem validateDeviceIdentity_repairs_deviceId:
  "(base64UrlDecode (publicKey data) = Some pubBytes \<longrightarrow>
      validateDeviceIdentity digest data = Inr (data\<lparr>deviceId := hexEncode (digest pubBytes)\<rparr>)
      \<and> (deviceId data = hexEncode (digest pubBytes)
           \<longrightarrow> validateDeviceIdentity digest data = Inr data)
      \<and> length (hexEncode (digest pubBytes)) = 2 * length (digest pubBytes)
      \<and> set (hexEncode (digest pubBytes)) \<subseteq> set ''0123456789abcdef'')
   \<and> (\<forall>r. validateDeviceIdentity digest data = Inr r \<longrightarrow>
          publicKey r = publicKey data \<and> privateKey r = privateKey data
          \<and> version r = version data \<and> createdAtMs r = createdAtMs data
          \<and> (\<exists>bytes. base64UrlDecode (publicKey data) = Some bytes
                       \<and> deviceId r = hexEncode (digest bytes)))
   \<and> (base64UrlDecode (publicKey data) = None \<longrightarrow>
          validateDeviceIdentity digest data = Inl InvalidCharacterError)
   \<and> (publicKey data = base64UrlEncode bs \<longrightarrow>
          base64UrlDecode (publicKey data) = Some bs
          \<and> CHR ''+'' \<notin> set (publicKey data) \<and> CHR ''/'' \<notin> set (publicKey data)
          \<and> CHR ''='' \<notin> set (publicKey data))
   \<and> validateDeviceIdentity digest (generateDeviceIdentity secretKey getPublicKey digest now)
        = Inr (generateDeviceIdentity secretKey getPublicKey digest now)"
proof (intro conjI impI allI)
  assume d: "base64UrlDecode (publicKey data) = Some pubBytes"
  then show "validateDeviceIdentity digest data
               = Inr (data\<lparr>deviceId := hexEncode (digest pubBytes)\<rparr>)"
    by (auto simp add: validateDeviceIdentity_def sha256Hex_def Let_def)
  show "length (hexEncode (digest pubBytes)) = 2 * length (digest pubBytes)"
    and "set (hexEncode (digest pubBytes)) \<subseteq> set ''0123456789abcdef''"
    using hexEncode_lowercase_hex [of "digest pubBytes"] by simp_all
  assume "deviceId data = hexEncode (digest pubBytes)"
  with d show "validateDeviceIdentity digest data = Inr data"
    by (simp add: validateDeviceIdentity_def sha256Hex_def Let_def)
next
  fix r
  assume r: "validateDeviceIdentity digest data = Inr r"
  then obtain bytes where b: "base64UrlDecode (publicKey data) = Some bytes"
    by (cases "base64UrlDecode (publicKey data)") (simp_all add: validateDeviceIdentity_def)
  then have "validateDeviceIdentity digest data = Inr (data\<lparr>deviceId := hexEncode (digest bytes)\<rparr>)"
    by (auto simp add: validateDeviceIdentity_def sha256Hex_def Let_def)
  with r have eq: "r = data\<lparr>deviceId := hexEncode (digest bytes)\<rparr>" by simp
  show "publicKey r = publicKey data" and "privateKey r = privateKey data"
    and "version r = version data" and "createdAtMs r = createdAtMs data"
    by (simp_all add: eq)
  show "\<exists>bytes. base64UrlDecode (publicKey data) = Some bytes
                 \<and> deviceId r = hexEncode (digest bytes)"
    using b by (simp add: eq)
next
  assume "base64UrlDecode (publicKey data) = None"
  then show "validateDeviceIdentity digest data = Inl InvalidCharacterError"
    by (simp add: validateDeviceIdentity_def)
next
  assume k: "publicKey data = base64UrlEncode bs"
  show "base64UrlDecode (publicKey data) = Some bs"
    unfolding k by (rule base64UrlDecode_Encode)
  show "CHR ''+'' \<notin> set (publicKey data)" and "CHR ''/'' \<notin> set (publicKey data)"
    and "CHR ''='' \<notin> set (publicKey data)"
    unfolding k using base64UrlEncode_url_safe [of bs] by simp_all
next
  show "validateDeviceIdentity digest (generateDeviceIdentity secretKey getPublicKey digest now)
        = Inr (generateDeviceIdentity secretKey getPublicKey digest now)"
    by (simp add: validateDeviceIdentity_def generateDeviceIdentity_def Let_def
        base64UrlDecode_Encode)
qed

theorem validateDeviceIdentity_repairs_deviceId_witness:
  "base64UrlEncode [0xFB, 0xFF, 0xFE, 0x3E] = ''-__-Pg''
   \<and> base64UrlDecode (publicKey \<lparr>version = 1, deviceId = ''0000'', publicKey = ''-__-Pg'',
                                privateKey = ''BAUG'', createdAtMs = 1700000000000\<rparr>)
     = Some [0xFB, 0xFF, 0xFE, 0x3E]
   \<and> validateDeviceIdentity (\<lambda>bs. [0xAB, 0x05] @ bs)
        \<lparr>version = 1, deviceId = ''0000'', publicKey = ''-__-Pg'', privateKey = ''BAUG'',
          createdAtMs = 1700000000000\<rparr>
     = Inr \<lparr>version = 1, deviceId = ''ab05fbfffe3e'', publicKey = ''-__-Pg'', privateKey = ''BAUG'',
          createdAtMs = 1700000000000\<rparr>"
proof -
  have h: "base64UrlDecode (publicKey \<lparr>version = 1, deviceId = ''0000'', publicKey = ''-__-Pg'',
                                privateKey = ''BAUG'', createdAtMs = 1700000000000\<rparr>)
             = Some [0xFB, 0xFF, 0xFE, 0x3E]"
    by code_simp
  have k: "base64UrlEncode [0xFB, 0xFF, 0xFE, 0x3E] = ''-__-Pg''"
    by code_simp
  have x: "hexEncode ([0xAB, 0x05] @ [0xFB, 0xFF, 0xFE, 0x3E]) = ''ab05fbfffe3e''"
    by (simp add: hexEncode_def padStart_def)
  from validateDeviceIdentity_repairs_deviceId
         [of _ "[0xFB, 0xFF, 0xFE, 0x3E]" "\<lambda>bs. [0xAB, 0x05] @ bs", THEN conjunct1, THEN mp,
          OF h, THEN conjunct1] h k x
  show ?thesis by simp
qed

text \<open>
  Claim C7 as stated fails where the stored key is not base64 text: for the key \<open>A\<close> the
  call rejects, and returns neither the identity nor a repaired copy.
\<close>

theorem validateDeviceIdentity_undecodable_key_counterexample:
  "base64UrlDecode ''A'' = None
   \<and> validateDeviceIdentity (\<lambda>bs. [0xAB, 0x05] @ bs)
        \<lparr>version = 1, deviceId = ''0000'', publicKey = ''A'', privateKey = ''BAUG'',
          createdAtMs = 1700000000000\<rparr>
     = Inl InvalidCharacterError"
proof -
  have "base64UrlDecode ''A'' = None" by code_simp
  then show ?thesis by (simp add: validateDeviceIdentity_def)
qed

section \<open>Properties of the chat session router\<close>

lemma extract_text_of_blocks:
  "extractTextFromChatMessage (Some m) =
     (if text_of_blocks m = [] then None else Some (text_of_blocks m))"
proof -
  define keep where "keep = (\<lambda>c::ContentBlock. block_type c = ''text'' \<and> block_text c \<noteq> None
                                        \<and> block_text c \<noteq> Some [])"
  have a: "concat (map (\<lambda>c. the (block_text c)) (filter keep bs))
           = concat (map (\<lambda>b. case block_text b of None \<Rightarrow> [] | Some t \<Rightarrow> t)
               (filter (\<lambda>b. block_type b = ''text'') bs))" for bs
    by (induction bs) (auto simp: keep_def)
  have b: "(filter keep bs = []) = (concat (map (\<lambda>c. the (block_text c)) (filter keep bs)) = [])" for bs
    by (induction bs) (auto simp: keep_def)
  show ?thesis
    unfolding extractTextFromChatMessage_def text_of_blocks_def a [symmetric]
    using b [of "msg_content m"]
    by (simp add: join_Nil_concat keep_def Let_def)
qed

lemma extract_None_iff:
  "extractTextFromChatMessage message = None \<longleftrightarrow>
     (case message of None \<Rightarrow> True
      | Some m \<Rightarrow> \<forall>b\<in>set (msg_content m).
           \<not> (block_type b = ''text'' \<and> block_text b \<noteq> None \<and> block_text b \<noteq> Some []))"
  by (cases message) (auto simp: extractTextFromChatMessage_def Let_def filter_empty_conv)

lemma handleChatEvent_unregistered:
  "chatEventListeners r (ev_runId event) = None \<Longrightarrow> handleChatEvent event r = r"
  by (simp add: handleChatEvent_def)

lemma handleChatEvents_unregistered:
  "chatEventListeners r rid = None \<Longrightarrow> \<forall>ev\<in>set events. ev_runId ev = rid \<Longrightarrow>
   handleChatEvents events r = r"
  unfolding handleChatEvents_def
  by (induction events) (simp_all add: handleChatEvent_unregistered)

lemma handleChatEvent_final:
  "chatEventListeners r (ev_runId event) = Some caller \<Longrightarrow> ev_state event = Final \<Longrightarrow>
   handleChatEvent event r =
     r\<lparr>chatEventListeners := (chatEventListeners r)(ev_runId event := None),
       invoked := invoked r @ (case extractTextFromChatMessage (ev_message event) of
                                 None \<Rightarrow> [] | Some text \<Rightarrow> [OnChunk caller text])
                   @ [OnDone caller]\<rparr>"
  by (simp add: handleChatEvent_def listener_onDone_def listener_onChunk_def split: option.split)

text \<open>
  Claim C10. A chat event in state \<open>delta\<close> or \<open>final\<close> whose message is absent or has no
  content block of type \<open>text\<close> with a non-empty text extracts to \<open>null\<close>; the \<open>delta\<close> leaves
  the router as it is (no \<open>onChunk\<close>), and the \<open>final\<close> invokes nothing but \<open>onDone\<close> of the
  registered caller and removes the registration.
\<close>

theorem no_text_no_onChunk:
  assumes "case ev_message event of None \<Rightarrow> True
           | Some m \<Rightarrow> \<forall>b\<in>set (msg_content m).
               \<not> (block_type b = ''text'' \<and> block_text b \<noteq> None \<and> block_text b \<noteq> Some [])"
  shows "extractTextFromChatMessage (ev_message event) = None
         \<and> (ev_state event = Delta \<longrightarrow> handleChatEvent event r = r)
         \<and> (ev_state event = Final \<longrightarrow>
              handleChatEvent event r =
                (case chatEventListeners r (ev_runId event) of
                   None \<Rightarrow> r
                 | Some caller \<Rightarrow>
                     r\<lparr>chatEventListeners := (chatEventListeners r)(ev_runId event := None),
                       invoked := invoked r @ [OnDone caller]\<rparr>))"
proof -
  have n: "extractTextFromChatMessage (ev_message event) = None"
    using assms by (simp add: extract_None_iff)
  have d: "ev_state event = Delta \<longrightarrow> handleChatEvent event r = r"
    by (simp add: handleChatEvent_def n split: option.split)
  have f: "ev_state event = Final \<longrightarrow>
              handleChatEvent event r =
                (case chatEventListeners r (ev_runId event) of
                   None \<Rightarrow> r
                 | Some caller \<Rightarrow>
                     r\<lparr>chatEventListeners := (chatEventListeners r)(ev_runId event := None),
                       invoked := invoked r @ [OnDone caller]\<rparr>)"
    by (simp add: handleChatEvent_final handleChatEvent_unregistered n split: option.split)
  from n d f show ?thesis by blast
qed

theorem no_text_no_onChunk_witness:
  "handleChatEvent
     \<lparr>ev_runId = ''run-1'', ev_sessionKey = ''main:123:abc'', ev_seq = 3, ev_state = Final,
       ev_message = Some \<lparr>msg_role = ''assistant'',
          msg_content = [\<lparr>block_type = ''text'', block_text = Some []\<rparr>,
                         \<lparr>block_type = ''image'', block_text = Some ''x''\<rparr>,
                         \<lparr>block_type = ''text'', block_text = None\<rparr>], msg_timestamp = 0\<rparr>,
       ev_errorMessage = None\<rparr>
     \<lparr>chatEventListeners = [''run-1'' \<mapsto> 7], invoked = []\<rparr>
   = \<lparr>chatEventListeners = Map.empty, invoked = [OnDone 7]\<rparr>"
  using no_text_no_onChunk [of
     "\<lparr>ev_runId = ''run-1'', ev_sessionKey = ''main:123:abc'', ev_seq = 3, ev_state = Final,
       ev_message = Some \<lparr>msg_role = ''assistant'',
          msg_content = [\<lparr>block_type = ''text'', block_text = Some []\<rparr>,
                         \<lparr>block_type = ''image'', block_text = Some ''x''\<rparr>,
                         \<lparr>block_type = ''text'', block_text = None\<rparr>], msg_timestamp = 0\<rparr>,
       ev_errorMessage = None\<rparr>"
     "\<lparr>chatEventListeners = [''run-1'' \<mapsto> 7], invoked = []\<rparr>"]
  by simp

text \<open>
  Claim C5, as amended. For a registered run: a \<open>delta\<close> whose message's text blocks
  concatenate to a non-empty text invokes \<open>onChunk\<close> with that text; a \<open>final\<close> invokes
  \<open>onChunk\<close> once more under the same condition, then \<open>onDone\<close>, and removes the
  registration, after which events for that run invoke nothing; an \<open>error\<close> invokes
  \<open>onError\<close> with the gateway's message or the generic one and removes the registration; an
  \<open>aborted\<close> invokes \<open>onDone\<close> and removes the registration.
\<close>

theorem chat_event_dispatch:
  assumes "chatEventListeners r (ev_runId event) = Some caller"
  shows "(ev_state event = Delta \<longrightarrow> ev_message event = Some m \<longrightarrow> text_of_blocks m \<noteq> [] \<longrightarrow>
            handleChatEvent event r = r\<lparr>invoked := invoked r @ [OnChunk caller (text_of_blocks m)]\<rparr>)
       \<and> (ev_state event = Final \<longrightarrow>
            handleChatEvent event r =
              r\<lparr>chatEventListeners := (chatEventListeners r)(ev_runId event := None),
                invoked := invoked r
                  @ (case ev_message event of
                       None \<Rightarrow> []
                     | Some m' \<Rightarrow> if text_of_blocks m' = [] then []
                                  else [OnChunk caller (text_of_blocks m')])
                  @ [OnDone caller]\<rparr>
            \<and> (\<forall>later. (\<forall>ev\<in>set later. ev_runId ev = ev_runId event) \<longrightarrow>
                  handleChatEvents later (handleChatEvent event r) = handleChatEvent event r))
       \<and> (ev_state event = Error \<longrightarrow>
            handleChatEvent event r =
              r\<lparr>chatEventListeners := (chatEventListeners r)(ev_runId event := None),
                invoked := invoked r @ [OnError caller (case ev_errorMessage event of
                                          None \<Rightarrow> ''Unknown gateway error'' | Some msg \<Rightarrow> msg)]\<rparr>)
       \<and> (ev_state event = Aborted \<longrightarrow>
            handleChatEvent event r =
              r\<lparr>chatEventListeners := (chatEventListeners r)(ev_runId event := None),
                invoked := invoked r @ [OnDone caller]\<rparr>)"
proof (intro conjI impI)
  assume "ev_state event = Delta" "ev_message event = Some m" "text_of_blocks m \<noteq> []"
  then show "handleChatEvent event r = r\<lparr>invoked := invoked r @ [OnChunk caller (text_of_blocks m)]\<rparr>"
    using assms by (simp add: handleChatEvent_def extract_text_of_blocks listener_onChunk_def)
next
  assume f: "ev_state event = Final"
  have x: "(case extractTextFromChatMessage (ev_message event) of
              None \<Rightarrow> [] | Some text \<Rightarrow> [OnChunk caller text])
           = (case ev_message event of
                       None \<Rightarrow> []
                     | Some m' \<Rightarrow> if text_of_blocks m' = [] then []
                                  else [OnChunk caller (text_of_blocks m')])"
    by (cases "ev_message event")
       (simp_all add: extract_text_of_blocks, simp add: extractTextFromChatMessage_def)
  show "handleChatEvent event r =
              r\<lparr>chatEventListeners := (chatEventListeners r)(ev_runId event := None),
                invoked := invoked r
                  @ (case ev_message event of
                       None \<Rightarrow> []
                     | Some m' \<Rightarrow> if text_of_blocks m' = [] then []
                                  else [OnChunk caller (text_of_blocks m')])
                  @ [OnDone caller]\<rparr>"
    using handleChatEvent_final [OF assms f] unfolding x .
  have "chatEventListeners (handleChatEvent event r) (ev_runId event) = None"
    using handleChatEvent_final [OF assms f] by simp
  then show "\<forall>later. (\<forall>ev\<in>set later. ev_runId ev = ev_runId event) \<longrightarrow>
                  handleChatEvents later (handleChatEvent event r) = handleChatEvent event r"
    using handleChatEvents_unregistered by blast
next
  assume "ev_state event = Error"
  then show "handleChatEvent event r =
              r\<lparr>chatEventListeners := (chatEventListeners r)(ev_runId event := None),
                invoked := invoked r @ [OnError caller (case ev_errorMessage event of
                                          None \<Rightarrow> ''Unknown gateway error'' | Some msg \<Rightarrow> msg)]\<rparr>"
    using assms by (simp add: handleChatEvent_def listener_onError_def)
next
  assume "ev_state event = Aborted"
  then show "handleChatEvent event r =
              r\<lparr>chatEventListeners := (chatEventListeners r)(ev_runId event := None),
                invoked := invoked r @ [OnDone caller]\<rparr>"
    using assms by (simp add: handleChatEvent_def listener_onDone_def)
qed

theorem chat_event_dispatch_witness:
  "chatEventListeners
      \<lparr>chatEventListeners = [''run-1'' \<mapsto> 0],
        invoked = [OnChunk 0 ''Hel'', OnChunk 0 ''Hello'']\<rparr>
      (ev_runId (ev_example Final ''Hello!'')) = Some 0
   \<and> handleChatEvent (ev_example Final ''Hello!'')
        \<lparr>chatEventListeners = [''run-1'' \<mapsto> 0],
          invoked = [OnChunk 0 ''Hel'', OnChunk 0 ''Hello'']\<rparr>
      = \<lparr>chatEventListeners = Map.empty,
          invoked = [OnChunk 0 ''Hel'', OnChunk 0 ''Hello'', OnChunk 0 ''Hello!'', OnDone 0]\<rparr>"
proof -
  have h: "chatEventListeners
      \<lparr>chatEventListeners = [''run-1'' \<mapsto> 0],
        invoked = [OnChunk 0 ''Hel'', OnChunk 0 ''Hello'']\<rparr>
      (ev_runId (ev_example Final ''Hello!'')) = Some 0"
    by (simp add: ev_example_def)
  from chat_event_dispatch [OF h, THEN conjunct2, THEN conjunct1] h
  show ?thesis by (simp add: ev_example_def text_of_blocks_def)
qed

text \<open>The scenario of the specification: cumulative deltas, the final event, and two late
  events that are ignored.\<close>

lemma chat_scenario:
  "handleChatEvents
     [ev_example Delta ''Hel'', ev_example Delta ''Hello'', ev_example Final ''Hello!'',
      ev_example Delta ''late'', ev_example Final ''late'']
     (register_listener ''run-1'' 0 \<lparr>chatEventListeners = Map.empty, invoked = []\<rparr>)
   = \<lparr>chatEventListeners = Map.empty,
       invoked = [OnChunk 0 ''Hel'', OnChunk 0 ''Hello'', OnChunk 0 ''Hello!'', OnDone 0]\<rparr>"
  by (simp add: handleChatEvents_def handleChatEvent_def ev_example_def register_listener_def
      extractTextFromChatMessage_def listener_onChunk_def listener_onDone_def)

text \<open>
  Claim C5 as stated fails for a \<open>delta\<close> whose only text block is empty: the run is
  registered and no callback is invoked.
\<close>

theorem delta_without_text_counterexample:
  "chatEventListeners \<lparr>chatEventListeners = [''run-1'' \<mapsto> 0], invoked = []\<rparr>
      (ev_runId (ev_example Delta [])) = Some 0
   \<and> ev_state (ev_example Delta []) = Delta
   \<and> invoked (handleChatEvent (ev_example Delta [])
                \<lparr>chatEventListeners = [''run-1'' \<mapsto> 0], invoked = []\<rparr>) = []"
  by (simp add: handleChatEvent_def ev_example_def extractTextFromChatMessage_def)

section \<open>Evaluating the client\<close>

lemmas client_defs =
  initial_def emit_def readyStateOf_def socket_close_def ws_close_def resolve_def reject_def
  new_Error_def setState_def startsWith_def resolveWsUrl_def clearTimers_def flushPending_def
  scheduleReconnect_def startTickWatch_def queueConnectTimeout_def connect_def request_def
  rpcTimer_fired_def handleResponse_def sendConnect_request_def sendConnect_def
  signPayload_settled_def sendConnect_ok_def toLowerCase_def pairing_error_def
  sendConnect_catch_def trim_def handleEvent_def handleMessage_def connectTimer_fired_def
  reconnectTimer_fired_def tickTimer_fired_def ws_onopen_def ws_onmessage_def ws_onclose_def
  start_def stop_def restart_def handle_def run_job_def run_jobs_def step_def run_def
  AList.update.simps AList.delete_eq Let_def

lemmas example_defs = env0_def pairing_res_def hello_res_def handshake_def

section \<open>State-change notifications\<close>

lemma notified_append: "notified (xs @ ys) = notified xs @ notified ys"
  by (induction xs rule: notified.induct) simp_all

lemma coherent_fields [simp]:
  "coherent (c\<lparr>ws := a1\<rparr>) = coherent c"
  "coherent (c\<lparr>pending := a2\<rparr>) = coherent c"
  "coherent (c\<lparr>connectNonce := a3\<rparr>) = coherent c"
  "coherent (c\<lparr>connectSent := a4\<rparr>) = coherent c"
  "coherent (c\<lparr>connectTimer := a5\<rparr>) = coherent c"
  "coherent (c\<lparr>tickTimer := a6\<rparr>) = coherent c"
  "coherent (c\<lparr>lastTick := a7\<rparr>) = coherent c"
  "coherent (c\<lparr>tickIntervalMs := a8\<rparr>) = coherent c"
  "coherent (c\<lparr>backoffMs := a9\<rparr>) = coherent c"
  "coherent (c\<lparr>closed := a10\<rparr>) = coherent c"
  "coherent (c\<lparr>reconnectTimer := a11\<rparr>) = coherent c"
  "coherent (c\<lparr>sockets := a12\<rparr>) = coherent c"
  "coherent (c\<lparr>rpcTimers := a13\<rparr>) = coherent c"
  "coherent (c\<lparr>calls := a14\<rparr>) = coherent c"
  "coherent (c\<lparr>awaiting := a15\<rparr>) = coherent c"
  "coherent (c\<lparr>signing := a16\<rparr>) = coherent c"
  "coherent (c\<lparr>jobs := a17\<rparr>) = coherent c"
  by (simp_all add: coherent_def)

lemma coherent_emit [simp]:
  "coherent (emit PairingRequired c) = coherent c"
  "coherent (emit (ConnectError er) c) = coherent c"
  "coherent (emit (DeviceTokenReceived tk) c) = coherent c"
  "coherent (emit (ChatEvent p) c) = coherent c"
  "coherent (emit (NewWebSocket i u) c) = coherent c"
  "coherent (emit (WsClose i cd rs) c) = coherent c"
  "coherent (emit (WsSend i u m) c) = coherent c"
  "coherent (emit (Resolve k pl) c) = coherent c"
  "coherent (emit (Reject k er) c) = coherent c"
  by (simp_all add: coherent_def emit_def notified_append)

lemma distinct_adj_snoc:
  "distinct_adj xs \<Longrightarrow> xs \<noteq> [] \<Longrightarrow> last xs \<noteq> s \<Longrightarrow> distinct_adj (xs @ [s])"
  by (simp add: distinct_adj_append_iff)

lemma coherent_setState [simp]: "coherent c \<Longrightarrow> coherent (setState s c)"
proof (cases "state c = s")
  case True
  assume "coherent c"
  with True show ?thesis by (simp add: setState_def)
next
  case False
  assume "coherent c"
  with False have "distinct_adj ((Disconnected # notified (trace c)) @ [s])"
    unfolding coherent_def by (intro distinct_adj_snoc) auto
  with False show ?thesis
    by (simp add: coherent_def setState_def emit_def notified_append)
qed

lemma coherent_socket_close [simp]: "coherent (socket_close i cd rs c) = coherent c"
  by (simp add: socket_close_def)

lemma coherent_ws_close [simp]: "coherent (ws_close cd rs c) = coherent c"
  by (simp add: ws_close_def split: option.split)

lemma coherent_resolve [simp]: "coherent (resolve k p c) = coherent c"
  by (simp add: resolve_def Let_def split: option.split)

lemma coherent_reject [simp]: "coherent (reject k er c) = coherent c"
  by (simp add: reject_def Let_def split: option.split)

lemma coherent_flush_entries: "coherent (flush_entries er ps c) = coherent c"
  by (induction er ps c rule: flush_entries.induct) simp_all

lemma coherent_flushPending [simp]: "coherent (flushPending er c) = coherent c"
  by (simp add: flushPending_def coherent_flush_entries)

lemma coherent_clearTimers [simp]: "coherent (clearTimers c) = coherent c"
  by (simp add: clearTimers_def)

lemma coherent_scheduleReconnect [simp]: "coherent (scheduleReconnect c) = coherent c"
  by (simp add: scheduleReconnect_def Let_def)

lemma coherent_startTickWatch [simp]: "coherent (startTickWatch c) = coherent c"
  by (simp add: startTickWatch_def)

lemma coherent_queueConnectTimeout [simp]: "coherent (queueConnectTimeout c) = coherent c"
  by (simp add: queueConnectTimeout_def)

lemma coherent_request [simp]: "coherent (request ow m t e c) = coherent c"
  by (simp add: request_def Let_def split: option.split)

lemma coherent_rpcTimer_fired [simp]: "coherent (rpcTimer_fired k c) = coherent c"
  by (simp add: rpcTimer_fired_def split: option.split)

lemma coherent_handleResponse [simp]: "coherent (handleResponse res c) = coherent c"
  by (simp add: handleResponse_def Let_def split: option.split)

lemma coherent_connect: "coherent c \<Longrightarrow> coherent (connect e c)"
  by (simp add: connect_def Let_def split: option.split)

lemma coherent_sendConnect [simp]: "coherent (sendConnect e c) = coherent c"
  by (simp add: sendConnect_def sendConnect_request_def Let_def)

lemma coherent_signPayload_settled [simp]: "coherent (signPayload_settled e c) = coherent c"
  by (simp add: signPayload_settled_def sendConnect_request_def)

lemma coherent_sendConnect_ok: "coherent c \<Longrightarrow> coherent (sendConnect_ok h p e c)"
  by (simp add: sendConnect_ok_def Let_def split: option.split)

lemma coherent_sendConnect_catch: "coherent c \<Longrightarrow> coherent (sendConnect_catch er c)"
  by (simp add: sendConnect_catch_def)

lemma coherent_handleMessage [simp]: "coherent (handleMessage raw e c) = coherent c"
  by (simp add: handleMessage_def handleEvent_def split: Frame.split GatewayEvent.split option.split)

lemma coherent_timers [simp]:
  "coherent (connectTimer_fired c) = coherent c"
  "coherent (tickTimer_fired e c) = coherent c"
  by (simp_all add: connectTimer_fired_def tickTimer_fired_def Let_def)

lemma coherent_reconnectTimer_fired: "coherent c \<Longrightarrow> coherent (reconnectTimer_fired e c)"
  by (simp add: reconnectTimer_fired_def Let_def coherent_connect)

lemma coherent_ws_onopen: "coherent c \<Longrightarrow> coherent (ws_onopen c)"
  by (simp add: ws_onopen_def)

lemma coherent_ws_onclose: "coherent c \<Longrightarrow> coherent (ws_onclose c)"
  by (simp add: ws_onclose_def Let_def)

lemma coherent_start: "coherent c \<Longrightarrow> coherent (start e c)"
  by (simp add: start_def coherent_connect)

lemma coherent_stop: "coherent c \<Longrightarrow> coherent (stop c)"
  by (simp add: stop_def Let_def split: option.split)

lemma coherent_restart: "coherent c \<Longrightarrow> coherent (restart e c)"
  by (simp add: restart_def Let_def coherent_connect split: option.split)

lemma coherent_handle: "coherent c \<Longrightarrow> coherent (handle e ev c)"
  by (cases ev)
     (simp_all add: handle_def coherent_start coherent_stop coherent_restart coherent_ws_onopen
        coherent_ws_onclose coherent_reconnectTimer_fired ws_onmessage_def)

lemma coherent_run_job: "coherent c \<Longrightarrow> coherent (run_job e j c)"
  by (cases j) (simp_all add: run_job_def coherent_sendConnect_ok coherent_sendConnect_catch)

lemma coherent_fold_jobs: "coherent c \<Longrightarrow> coherent (fold (run_job e) js c)"
  by (induction js arbitrary: c) (simp_all add: coherent_run_job)

lemma coherent_step: "coherent c \<Longrightarrow> coherent (step e ev c)"
  by (simp add: step_def run_jobs_def coherent_fold_jobs coherent_handle)

lemma coherent_run: "coherent c \<Longrightarrow> coherent (run evs c)"
  unfolding run_def
  by (induction evs arbitrary: c) (simp_all add: coherent_step split_def)

lemma coherent_initial: "coherent initial"
  by (simp add: coherent_def initial_def)

text \<open>
  Claim C9. \<open>setState\<close> with the current state changes nothing and notifies nobody, and a
  call with another state sets it and notifies once; so in every run of the client from its
  initial state, no two consecutive \<open>onStateChange\<close> notifications carry the same state, and
  the last one is the state the client is in.
\<close>

theorem state_change_notifications:
  "setState (state c) c = c
   \<and> (s \<noteq> state c \<longrightarrow> state (setState s c) = s \<and> trace (setState s c) = trace c @ [StateChange s])
   \<and> distinct_adj (notified (trace (run evs initial)))
   \<and> last (Disconnected # notified (trace (run evs initial))) = state (run evs initial)"
proof -
  have "coherent (run evs initial)"
    by (rule coherent_run) (rule coherent_initial)
  then have "distinct_adj (notified (trace (run evs initial)))
     \<and> last (Disconnected # notified (trace (run evs initial))) = state (run evs initial)"
    unfolding coherent_def by (auto simp: distinct_adj_Cons)
  then show ?thesis by (simp add: setState_def emit_def)
qed

theorem state_change_notifications_witness:
  "Connecting \<noteq> state initial
   \<and> state (setState Connecting initial) = Connecting
   \<and> trace (setState Connecting initial) = trace initial @ [StateChange Connecting]
   \<and> notified (trace (run (handshake @ [(env0, SocketMessage 0 (ResponseFrame pairing_res)),
         (env0, SocketClose 0), (env0, ReconnectTimerFired)]) initial))
       = [Connecting, Authenticating, Pairing_required, Reconnecting, Connecting]
   \<and> distinct_adj (notified (trace (run (handshake @
         [(env0, SocketMessage 0 (ResponseFrame pairing_res)),
          (env0, SocketClose 0), (env0, ReconnectTimerFired)]) initial)))"
proof -
  have a: "Connecting \<noteq> state initial" by (simp add: initial_def)
  have b: "notified (trace (run (handshake @ [(env0, SocketMessage 0 (ResponseFrame pairing_res)),
         (env0, SocketClose 0), (env0, ReconnectTimerFired)]) initial))
       = [Connecting, Authenticating, Pairing_required, Reconnecting, Connecting]"
    by (simp add: client_defs example_defs)
  from a b state_change_notifications [of initial Connecting
      "handshake @ [(env0, SocketMessage 0 (ResponseFrame pairing_res)),
         (env0, SocketClose 0), (env0, ReconnectTimerFired)]"]
  show ?thesis by blast
qed

section \<open>Flushing and queued continuations\<close>

lemma reject_frame:
  "ws (reject k er c) = ws c" "state (reject k er c) = state c"
  "closed (reject k er c) = closed c" "sockets (reject k er c) = sockets c"
  "connectTimer (reject k er c) = connectTimer c" "tickTimer (reject k er c) = tickTimer c"
  "reconnectTimer (reject k er c) = reconnectTimer c" "backoffMs (reject k er c) = backoffMs c"
  "tickIntervalMs (reject k er c) = tickIntervalMs c" "lastTick (reject k er c) = lastTick c"
  "pending (reject k er c) = pending c" "rpcTimers (reject k er c) = rpcTimers c"
  "calls (reject k er c) = calls c" "signing (reject k er c) = signing c"
  "connectSent (reject k er c) = connectSent c" "connectNonce (reject k er c) = connectNonce c"
  by (simp_all add: reject_def emit_def Let_def split: option.split)

lemma reject_jobs:
  "jobs (reject k er c)
     = jobs c @ (if map_of (awaiting c) k = None then [] else [ConnectFailed er])"
  by (simp add: reject_def emit_def Let_def split: option.split)

lemma reject_trace: "trace (reject k er c) = trace c @ [Reject k er]"
  by (simp add: reject_def emit_def Let_def split: option.split)

lemma flush_entries_frame:
  "ws (flush_entries er ps c) = ws c \<and> state (flush_entries er ps c) = state c
   \<and> closed (flush_entries er ps c) = closed c \<and> sockets (flush_entries er ps c) = sockets c
   \<and> connectTimer (flush_entries er ps c) = connectTimer c
   \<and> tickTimer (flush_entries er ps c) = tickTimer c
   \<and> reconnectTimer (flush_entries er ps c) = reconnectTimer c
   \<and> backoffMs (flush_entries er ps c) = backoffMs c
   \<and> tickIntervalMs (flush_entries er ps c) = tickIntervalMs c
   \<and> lastTick (flush_entries er ps c) = lastTick c
   \<and> calls (flush_entries er ps c) = calls c \<and> signing (flush_entries er ps c) = signing c
   \<and> connectSent (flush_entries er ps c) = connectSent c
   \<and> connectNonce (flush_entries er ps c) = connectNonce c
   \<and> pending (flush_entries er ps c) = pending c"
  by (induction er ps c rule: flush_entries.induct) (simp_all add: reject_frame)

lemma flush_entries_trace:
  "trace (flush_entries er ps c) = trace c @ map (\<lambda>(i, k). Reject k er) ps"
  by (induction er ps c rule: flush_entries.induct) (simp_all add: reject_trace)

lemma flush_entries_rpcTimers:
  "rpcTimers (flush_entries er ps c) = filter (\<lambda>(k, t). k \<notin> snd ` set ps) (rpcTimers c)"
proof (induction er ps c rule: flush_entries.induct)
  case (1 err c)
  show ?case by simp
next
  case (2 err i k ps c)
  then show ?case
    by (auto simp add: reject_frame AList.delete_eq intro!: filter_cong)
qed

lemma flush_entries_jobs:
  "\<exists>n. jobs (flush_entries er ps c) = jobs c @ replicate n (ConnectFailed er)"
proof (induction er ps c rule: flush_entries.induct)
  case (1 err c)
  have "jobs c = jobs c @ replicate 0 (ConnectFailed err)" by simp
  then show ?case by (simp only: flush_entries.simps) blast
next
  case (2 err i k ps c)
  then obtain n where n: "jobs (flush_entries err ((i, k) # ps) c)
      = jobs (reject k err (c\<lparr>rpcTimers := AList.delete k (rpcTimers c)\<rparr>))
        @ replicate n (ConnectFailed err)" by auto
  show ?case
  proof (cases "map_of (awaiting c) k \<noteq> None")
    case True
    with n have "jobs (flush_entries err ((i, k) # ps) c)
        = jobs c @ replicate (Suc n) (ConnectFailed err)"
      by (simp add: reject_jobs)
    then show ?thesis by blast
  next
    case False
    with n have "jobs (flush_entries err ((i, k) # ps) c) = jobs c @ replicate n (ConnectFailed err)"
      by (simp add: reject_jobs)
    then show ?thesis by blast
  qed
qed

lemma catch_not_pairing:
  "\<not> pairing_error er \<Longrightarrow> ws c = None \<Longrightarrow> sendConnect_catch er c = emit (ConnectError er) c"
  by (simp add: sendConnect_catch_def ws_close_def emit_def)

lemma fold_failed_jobs:
  "\<not> pairing_error er \<Longrightarrow> ws c = None \<Longrightarrow>
   fold (run_job e) (replicate n (ConnectFailed er)) c
     = c\<lparr>trace := trace c @ replicate n (ConnectError er)\<rparr>"
proof (induction n arbitrary: c)
  case 0
  show ?case by simp
next
  case (Suc n)
  have "fold (run_job e) (replicate (Suc n) (ConnectFailed er)) c
        = fold (run_job e) (replicate n (ConnectFailed er)) (emit (ConnectError er) c)"
    using Suc.prems by (simp add: run_job_def catch_not_pairing)
  also have "\<dots> = (emit (ConnectError er) c)\<lparr>trace := trace (emit (ConnectError er) c)
                       @ replicate n (ConnectError er)\<rparr>"
    using Suc.prems by (intro Suc.IH) (simp_all add: emit_def)
  finally show ?case by (simp add: emit_def replicate_append_same)
qed

text \<open>Once a handler has left the client without a socket and has queued only failures that
  are not pairing errors, running the continuations adds \<open>onConnectError\<close> calls and nothing
  else.\<close>

lemma run_jobs_failed:
  assumes "jobs c = replicate n (ConnectFailed er)" "\<not> pairing_error er" "ws c = None"
  shows "run_jobs e c = c\<lparr>jobs := [], trace := trace c @ replicate n (ConnectError er)\<rparr>"
  using assms fold_failed_jobs [of er "c\<lparr>jobs := []\<rparr>" e n]
  by (simp add: run_jobs_def del: fold_replicate)

lemma run_jobs_none: "jobs c = [] \<Longrightarrow> run_jobs e c = c"
  by (simp add: run_jobs_def)

lemma setState_frame:
  "ws (setState s c) = ws c" "closed (setState s c) = closed c"
  "sockets (setState s c) = sockets c" "pending (setState s c) = pending c"
  "connectTimer (setState s c) = connectTimer c" "tickTimer (setState s c) = tickTimer c"
  "reconnectTimer (setState s c) = reconnectTimer c" "backoffMs (setState s c) = backoffMs c"
  "tickIntervalMs (setState s c) = tickIntervalMs c" "lastTick (setState s c) = lastTick c"
  "rpcTimers (setState s c) = rpcTimers c" "calls (setState s c) = calls c"
  "jobs (setState s c) = jobs c" "awaiting (setState s c) = awaiting c"
  "signing (setState s c) = signing c" "connectSent (setState s c) = connectSent c"
  "connectNonce (setState s c) = connectNonce c"
  "state (setState s c) = s"
  "trace (setState s c) = trace c @ (if state c = s then [] else [StateChange s])"
  by (simp_all add: setState_def emit_def)

lemma not_pairing_errors:
  "\<not> pairing_error (new_Error ''client stopped'')"
  "\<not> pairing_error (new_Error ''client restarting'')"
  "\<not> pairing_error (new_Error ''WebSocket closed'')"
  "\<not> pairing_error (new_Error ''WebSocket not connected'')"
  by (simp_all add: pairing_error_def new_Error_def toLowerCase_def startsWith_def)


lemma flushPending_jobs:
  "\<exists>n. jobs (flushPending er c) = jobs c @ replicate n (ConnectFailed er)"
  using flush_entries_jobs [of er "pending c" c] by (simp add: flushPending_def)




section \<open>Stopping and restarting\<close>




section \<open>Socket messages, closes and reconnects, step by step\<close>


lemma ws_close_frame:
  "ws (ws_close cd rs c) = ws c" "closed (ws_close cd rs c) = closed c"
  "state (ws_close cd rs c) = state c" "pending (ws_close cd rs c) = pending c"
  "connectTimer (ws_close cd rs c) = connectTimer c" "tickTimer (ws_close cd rs c) = tickTimer c"
  "reconnectTimer (ws_close cd rs c) = reconnectTimer c"
  "backoffMs (ws_close cd rs c) = backoffMs c"
  "tickIntervalMs (ws_close cd rs c) = tickIntervalMs c" "lastTick (ws_close cd rs c) = lastTick c"
  "rpcTimers (ws_close cd rs c) = rpcTimers c" "calls (ws_close cd rs c) = calls c"
  "jobs (ws_close cd rs c) = jobs c" "awaiting (ws_close cd rs c) = awaiting c"
  "signing (ws_close cd rs c) = signing c" "connectSent (ws_close cd rs c) = connectSent c"
  "connectNonce (ws_close cd rs c) = connectNonce c"
  "length (sockets (ws_close cd rs c)) = length (sockets c)"
  "trace (ws_close cd rs c)
     = trace c @ (case ws c of None \<Rightarrow> [] | Some i \<Rightarrow> [WsClose i (Some cd) rs])"
  by (simp_all add: ws_close_def socket_close_def emit_def split: option.split)





lemma run_jobs_single: "jobs c = [j] \<Longrightarrow> run_jobs e c = run_job e j (c\<lparr>jobs := []\<rparr>)"
  by (simp add: run_jobs_def)




lemma flushPending_frame:
  "ws (flushPending er c) = ws c" "state (flushPending er c) = state c"
  "closed (flushPending er c) = closed c" "sockets (flushPending er c) = sockets c"
  "connectTimer (flushPending er c) = connectTimer c"
  "tickTimer (flushPending er c) = tickTimer c"
  "reconnectTimer (flushPending er c) = reconnectTimer c"
  "backoffMs (flushPending er c) = backoffMs c"
  "tickIntervalMs (flushPending er c) = tickIntervalMs c"
  "lastTick (flushPending er c) = lastTick c"
  "calls (flushPending er c) = calls c" "signing (flushPending er c) = signing c"
  "connectSent (flushPending er c) = connectSent c"
  "connectNonce (flushPending er c) = connectNonce c"
  "pending (flushPending er c) = []"
  "trace (flushPending er c) = trace c @ map (\<lambda>(i, k). Reject k er) (pending c)"
  "rpcTimers (flushPending er c) = filter (\<lambda>(k, t). k \<notin> snd ` set (pending c)) (rpcTimers c)"
  by (simp_all add: flushPending_def flush_entries_frame flush_entries_trace
      flush_entries_rpcTimers)

lemma scheduleReconnect_frame:
  "ws (scheduleReconnect c) = ws c" "state (scheduleReconnect c) = state c"
  "closed (scheduleReconnect c) = closed c" "sockets (scheduleReconnect c) = sockets c"
  "pending (scheduleReconnect c) = pending c" "rpcTimers (scheduleReconnect c) = rpcTimers c"
  "jobs (scheduleReconnect c) = jobs c" "trace (scheduleReconnect c) = trace c"
  "calls (scheduleReconnect c) = calls c" "awaiting (scheduleReconnect c) = awaiting c"
  "lastTick (scheduleReconnect c) = lastTick c"
  "tickIntervalMs (scheduleReconnect c) = tickIntervalMs c"
  by (simp_all add: scheduleReconnect_def clearTimers_def Let_def)

lemma scheduleReconnect_open:
  "\<not> closed c \<Longrightarrow>
   reconnectTimer (scheduleReconnect c) = Some (backoffMs c)
   \<and> backoffMs (scheduleReconnect c) = min (backoffMs c * 2) 30000
   \<and> \<not> connectTimer (scheduleReconnect c) \<and> tickTimer (scheduleReconnect c) = None"
  by (simp add: scheduleReconnect_def clearTimers_def Let_def)

lemma close_step:
  fixes e :: env
  assumes "jobs c = []" "\<not> closed c" "readyStateOf c i \<noteq> CLOSED"
  defines "c2 \<equiv> step e (SocketClose i) c"
  shows "state c2 = Reconnecting" "reconnectTimer c2 = Some (backoffMs c)"
    "backoffMs c2 = min (backoffMs c * 2) 30000" "ws c2 = None" "pending c2 = []"
    "jobs c2 = []" "\<not> closed c2" "\<not> connectTimer c2" "tickTimer c2 = None"
    "length (sockets c2) = length (sockets c)"
    "\<exists>n. trace c2 = trace c
        @ map (\<lambda>(i, k). Reject k (new_Error ''WebSocket closed'')) (pending c)
        @ (if state c = Reconnecting then [] else [StateChange Reconnecting])
        @ replicate n (ConnectError (new_Error ''WebSocket closed''))"
proof -
  define er where "er = new_Error ''WebSocket closed''"
  define cf where "cf = flushPending er (c\<lparr>sockets := (sockets c)[i := CLOSED], ws := None\<rparr>)"
  define cc where "cc = scheduleReconnect (setState Reconnecting cf)"
  have cf_f: "ws cf = None" "state cf = state c" "\<not> closed cf" "pending cf = []"
      "backoffMs cf = backoffMs c" "length (sockets cf) = length (sockets c)"
      "trace cf = trace c @ map (\<lambda>(i, k). Reject k er) (pending c)"
    using assms(2) by (simp_all add: cf_def flushPending_frame)
  have h: "handle e (SocketClose i) c = cc"
    using assms(3) cf_f(3)
    by (simp add: handle_def ws_onclose_def Let_def cc_def cf_def er_def)
  obtain n where n: "jobs cf = replicate n (ConnectFailed er)"
    using flushPending_jobs [of er "c\<lparr>sockets := (sockets c)[i := CLOSED], ws := None\<rparr>"] assms(1)
    by (auto simp add: cf_def)
  have cc_f: "ws cc = None" "state cc = Reconnecting" "\<not> closed cc" "pending cc = []"
      "reconnectTimer cc = Some (backoffMs c)" "backoffMs cc = min (backoffMs c * 2) 30000"
      "\<not> connectTimer cc" "tickTimer cc = None" "length (sockets cc) = length (sockets c)"
      "jobs cc = replicate n (ConnectFailed er)"
      "trace cc = trace c @ map (\<lambda>(i, k). Reject k er) (pending c)
         @ (if state c = Reconnecting then [] else [StateChange Reconnecting])"
    using cf_f n scheduleReconnect_open [of "setState Reconnecting cf"]
    by (simp_all add: cc_def scheduleReconnect_frame setState_frame)
  have "\<not> pairing_error er" by (simp add: er_def not_pairing_errors)
  from run_jobs_failed [OF cc_f(10) this cc_f(1), of e]
  have c2: "c2 = cc\<lparr>jobs := [], trace := trace cc @ replicate n (ConnectError er)\<rparr>"
    by (simp add: c2_def step_def h)
  show "state c2 = Reconnecting" "reconnectTimer c2 = Some (backoffMs c)"
    "backoffMs c2 = min (backoffMs c * 2) 30000" "ws c2 = None" "pending c2 = []"
    "jobs c2 = []" "\<not> closed c2" "\<not> connectTimer c2" "tickTimer c2 = None"
    "length (sockets c2) = length (sockets c)"
    using cc_f by (simp_all add: c2)
  have "trace c2 = trace c
        @ map (\<lambda>(i, k). Reject k (new_Error ''WebSocket closed'')) (pending c)
        @ (if state c = Reconnecting then [] else [StateChange Reconnecting])
        @ replicate n (ConnectError (new_Error ''WebSocket closed''))"
    using cc_f(11) by (simp add: c2 er_def)
  then show "\<exists>n. trace c2 = trace c
        @ map (\<lambda>(i, k). Reject k (new_Error ''WebSocket closed'')) (pending c)
        @ (if state c = Reconnecting then [] else [StateChange Reconnecting])
        @ replicate n (ConnectError (new_Error ''WebSocket closed''))"
    by blast
qed

lemma connect_no_socket:
  assumes "\<not> env_throws e" "ws c = None"
  shows "state (connect e c) = Connecting" "ws (connect e c) = Some (length (sockets c))"
    "sockets (connect e c) = sockets c @ [CONNECTING]" "jobs (connect e c) = jobs c"
    "closed (connect e c) = closed c" "backoffMs (connect e c) = backoffMs c"
    "reconnectTimer (connect e c) = reconnectTimer c" "pending (connect e c) = pending c"
    "trace (connect e c) = trace c
       @ (if state c = Connecting then [] else [StateChange Connecting])
       @ [NewWebSocket (length (sockets c)) (resolveWsUrl (env_url e))]"
  using assms by (simp_all add: connect_def Let_def setState_frame emit_def)

lemma reconnect_step:
  fixes e :: env
  assumes "jobs c = []" "reconnectTimer c \<noteq> None" "\<not> closed c" "ws c = None" "\<not> env_throws e"
  defines "c3 \<equiv> step e ReconnectTimerFired c"
  shows "state c3 = Connecting" "ws c3 = Some (length (sockets c))"
    "sockets c3 = sockets c @ [CONNECTING]" "reconnectTimer c3 = None" "jobs c3 = []"
    "backoffMs c3 = backoffMs c" "\<not> closed c3"
    "trace c3 = trace c
       @ (if state c = Connecting then [] else [StateChange Connecting])
       @ [NewWebSocket (length (sockets c)) (resolveWsUrl (env_url e))]"
proof -
  have h: "handle e ReconnectTimerFired c = connect e (c\<lparr>reconnectTimer := None\<rparr>)"
    using assms(2,3) by (auto simp add: handle_def reconnectTimer_fired_def Let_def)
  have w: "ws (c\<lparr>reconnectTimer := None\<rparr>) = None" using assms(4) by simp
  note cn = connect_no_socket [OF assms(5) w]
  have "jobs (connect e (c\<lparr>reconnectTimer := None\<rparr>)) = []" using cn(4) assms(1) by simp
  then have c3: "c3 = connect e (c\<lparr>reconnectTimer := None\<rparr>)"
    by (simp add: c3_def step_def h run_jobs_none)
  show "state c3 = Connecting" "ws c3 = Some (length (sockets c))"
    "sockets c3 = sockets c @ [CONNECTING]" "reconnectTimer c3 = None" "jobs c3 = []"
    "backoffMs c3 = backoffMs c" "\<not> closed c3"
    "trace c3 = trace c
       @ (if state c = Connecting then [] else [StateChange Connecting])
       @ [NewWebSocket (length (sockets c)) (resolveWsUrl (env_url e))]"
    using cn assms(1,3) by (simp_all add: c3)
qed


section \<open>Pairing required\<close>




section \<open>A successful connect response\<close>

lemma sendConnect_ok_fields:
  "backoffMs (sendConnect_ok h p e c) = 1000"
  "state (sendConnect_ok h p e c) = Connected"
  "lastTick (sendConnect_ok h p e c) = Some (env_now e)"
  "tickIntervalMs (sendConnect_ok h p e c)
     = (case p of None \<Rightarrow> tickIntervalMs c
        | Some pl \<Rightarrow> (case policy_tickIntervalMs pl of None \<Rightarrow> tickIntervalMs c
                      | Some n \<Rightarrow> if n > 0 then n else tickIntervalMs c))"
  "tickTimer (sendConnect_ok h p e c) = Some (max (tickIntervalMs (sendConnect_ok h p e c)) 1000)"
  "ws (sendConnect_ok h p e c) = ws c" "closed (sendConnect_ok h p e c) = closed c"
  "jobs (sendConnect_ok h p e c) = jobs c" "sockets (sendConnect_ok h p e c) = sockets c"
  "pending (sendConnect_ok h p e c) = pending c"
  "reconnectTimer (sendConnect_ok h p e c) = reconnectTimer c"
  by (simp_all add: sendConnect_ok_def Let_def setState_frame startTickWatch_def emit_def
      split: option.split)

lemma resolve_awaited:
  "map_of (awaiting c) k = Some h \<Longrightarrow>
   jobs (resolve k p c) = jobs c @ [HelloOk h p]
   \<and> awaiting (resolve k p c) = AList.delete k (awaiting c)"
  by (simp add: resolve_def emit_def Let_def)

lemma resolve_frame:
  "ws (resolve k p c) = ws c" "state (resolve k p c) = state c"
  "closed (resolve k p c) = closed c" "sockets (resolve k p c) = sockets c"
  "connectTimer (resolve k p c) = connectTimer c" "tickTimer (resolve k p c) = tickTimer c"
  "reconnectTimer (resolve k p c) = reconnectTimer c" "backoffMs (resolve k p c) = backoffMs c"
  "tickIntervalMs (resolve k p c) = tickIntervalMs c" "lastTick (resolve k p c) = lastTick c"
  "pending (resolve k p c) = pending c" "rpcTimers (resolve k p c) = rpcTimers c"
  "calls (resolve k p c) = calls c" "signing (resolve k p c) = signing c"
  "connectSent (resolve k p c) = connectSent c" "connectNonce (resolve k p c) = connectNonce c"
  "trace (resolve k p c) = trace c @ [Resolve k p]"
  by (simp_all add: resolve_def emit_def Let_def split: option.split)

lemma hello_step:
  fixes e :: env
  assumes "jobs c = []" "readyStateOf c i = OPEN"
    "map_of (pending c) (res_id res) = Some k" "map_of (awaiting c) k = Some hasId"
    "res_ok res"
  defines "c1 \<equiv> step e (SocketMessage i (ResponseFrame res)) c"
  shows "backoffMs c1 = 1000" "state c1 = Connected" "lastTick c1 = Some (env_now e)"
    "tickIntervalMs c1
       = (case res_payload res of None \<Rightarrow> tickIntervalMs c
          | Some pl \<Rightarrow> (case policy_tickIntervalMs pl of None \<Rightarrow> tickIntervalMs c
                        | Some n \<Rightarrow> if n > 0 then n else tickIntervalMs c))"
    "tickTimer c1 = Some (max (tickIntervalMs c1) 1000)"
    "ws c1 = ws c" "closed c1 = closed c" "jobs c1 = []" "sockets c1 = sockets c"
proof -
  define cr where "cr = resolve k (res_payload res)
         (c\<lparr>pending := AList.delete (res_id res) (pending c),
            rpcTimers := AList.delete k (rpcTimers c)\<rparr>)"
  have h: "handle e (SocketMessage i (ResponseFrame res)) c = cr"
    using assms(2,3,5)
    by (simp add: handle_def ws_onmessage_def handleMessage_def handleResponse_def Let_def cr_def)
  have j: "jobs cr = [HelloOk hasId (res_payload res)]"
    using resolve_awaited [of "c\<lparr>pending := AList.delete (res_id res) (pending c),
            rpcTimers := AList.delete k (rpcTimers c)\<rparr>" k hasId "res_payload res"] assms(1,4)
    by (simp add: cr_def)
  have c1: "c1 = sendConnect_ok hasId (res_payload res) e (cr\<lparr>jobs := []\<rparr>)"
    unfolding c1_def step_def h run_jobs_single [OF j] by (simp add: run_job_def)
  show "backoffMs c1 = 1000" "state c1 = Connected" "lastTick c1 = Some (env_now e)"
    "tickTimer c1 = Some (max (tickIntervalMs c1) 1000)"
    "ws c1 = ws c" "closed c1 = closed c" "jobs c1 = []" "sockets c1 = sockets c"
    unfolding c1 by (simp_all add: sendConnect_ok_fields cr_def resolve_frame)
  show "tickIntervalMs c1
       = (case res_payload res of None \<Rightarrow> tickIntervalMs c
          | Some pl \<Rightarrow> (case policy_tickIntervalMs pl of None \<Rightarrow> tickIntervalMs c
                        | Some n \<Rightarrow> if n > 0 then n else tickIntervalMs c))"
    unfolding c1 by (simp add: sendConnect_ok_fields cr_def resolve_frame split: option.split)
qed

section \<open>Reconnect backoff\<close>

lemma run_append: "run (xs @ ys) c = run ys (run xs c)"
  by (simp add: run_def)

lemma run_single: "run [(e, ev)] c = step e ev c"
  by (simp add: run_def)

lemma doubling_capped:
  "min (min (1000 * 2 ^ n) 30000 * 2) (30000::int) = min (1000 * 2 ^ Suc n) 30000"
  by (simp add: min_def)

lemma failed_attempts_state:
  "jobs (run (failed_attempts n) initial) = []
   \<and> \<not> closed (run (failed_attempts n) initial)
   \<and> ws (run (failed_attempts n) initial) = Some n
   \<and> sockets (run (failed_attempts n) initial) = replicate n CLOSED @ [CONNECTING]
   \<and> backoffMs (run (failed_attempts n) initial) = min (1000 * 2 ^ n) 30000"
proof (induction n)
  case 0
  show ?case by (simp add: client_defs example_defs)
next
  case (Suc n)
  define c where "c = run (failed_attempts n) initial"
  define c2 where "c2 = step env0 (SocketClose n) c"
  have r: "run (failed_attempts (Suc n)) initial = step env0 ReconnectTimerFired c2"
    by (simp add: run_append c_def c2_def run_def)
  from Suc have c: "jobs c = []" "\<not> closed c" "ws c = Some n"
    "sockets c = replicate n CLOSED @ [CONNECTING]" "backoffMs c = min (1000 * 2 ^ n) 30000"
    by (simp_all add: c_def)
  have rs: "readyStateOf c n \<noteq> CLOSED"
    by (simp add: readyStateOf_def c(4) nth_append)
  note q = close_step [OF c(1) c(2) rs, of env0, folded c2_def]
  have s2: "sockets c2 = replicate (Suc n) CLOSED"
  proof -
    have "sockets (handle env0 (SocketClose n) c) = (sockets c)[n := CLOSED]"
      using rs c(2)
      by (simp add: handle_def ws_onclose_def Let_def scheduleReconnect_frame setState_frame
          flushPending_frame)
    moreover have "sockets (run_jobs env0 x) = sockets x" if "ws x = None"
       "\<exists>m. jobs x = replicate m (ConnectFailed (new_Error ''WebSocket closed''))" for x
      using that run_jobs_failed [OF _ not_pairing_errors(3), of x _ env0] by auto
    moreover have "ws (handle env0 (SocketClose n) c) = None"
      using rs c(2)
      by (simp add: handle_def ws_onclose_def Let_def scheduleReconnect_frame setState_frame
          flushPending_frame)
    moreover have "\<exists>m. jobs (handle env0 (SocketClose n) c)
                       = replicate m (ConnectFailed (new_Error ''WebSocket closed''))"
      using rs c(1,2) flushPending_jobs [of "new_Error ''WebSocket closed''"
           "c\<lparr>sockets := (sockets c)[n := CLOSED], ws := None\<rparr>"]
      by (simp add: handle_def ws_onclose_def Let_def scheduleReconnect_frame setState_frame
          flushPending_frame)
    ultimately show ?thesis
      by (simp add: c2_def step_def c(4) list_update_append replicate_append_same)
  qed
  have rt: "reconnectTimer c2 \<noteq> None" using q(2) by simp
  have nt: "\<not> env_throws env0" by (simp add: env0_def)
  note p = reconnect_step [OF q(6) rt q(7) q(4) nt]
  show ?case
    unfolding r using p q(3) c(5) s2 by (simp add: doubling_capped)
qed

text \<open>
  Claim C4. The \<open>n\<close>-th consecutive connection failure after the start (counting from 0)
  schedules the reconnect after \<open>min (1000 * 2 ^ n) 30000\<close> ms: 1000, 2000 and 4000 ms for
  the first three. In general a close of the transport of a client that is not stopped
  schedules the reconnect after the current backoff and doubles the backoff up to 30000 ms,
  and a successful response to the \<open>connect\<close> request sets the backoff to 1000 ms.
\<close>

theorem reconnect_backoff:
  "reconnectTimer (run (failed_attempts n @ [(env0, SocketClose n)]) initial)
     = Some (min (1000 * 2 ^ n) 30000)
   \<and> map (\<lambda>m. reconnectTimer (run (failed_attempts m @ [(env0, SocketClose m)]) initial))
        [0, 1, 2] = [Some 1000, Some 2000, Some 4000]
   \<and> (jobs c = [] \<and> \<not> closed c \<and> readyStateOf c i \<noteq> CLOSED \<longrightarrow>
        reconnectTimer (step e (SocketClose i) c) = Some (backoffMs c)
        \<and> backoffMs (step e (SocketClose i) c) = min (backoffMs c * 2) 30000)
   \<and> (jobs c = [] \<and> readyStateOf c i = OPEN \<and> map_of (pending c) (res_id res) = Some k
        \<and> map_of (awaiting c) k = Some hasId \<and> res_ok res \<longrightarrow>
        backoffMs (step e (SocketMessage i (ResponseFrame res)) c) = 1000)"
proof -
  have a: "reconnectTimer (run (failed_attempts m @ [(env0, SocketClose m)]) initial)
     = Some (min (1000 * 2 ^ m) 30000)" for m
  proof -
    define d where "d = run (failed_attempts m) initial"
    from failed_attempts_state [of m]
    have d: "jobs d = []" "\<not> closed d" "sockets d = replicate m CLOSED @ [CONNECTING]"
      "backoffMs d = min (1000 * 2 ^ m) 30000"
      by (simp_all add: d_def)
    have rs: "readyStateOf d m \<noteq> CLOSED" by (simp add: readyStateOf_def d(3) nth_append)
    from close_step(2) [OF d(1) d(2) rs, of env0] d(4)
    show ?thesis by (simp add: run_append run_single d_def)
  qed
  have b: "map (\<lambda>m. reconnectTimer (run (failed_attempts m @ [(env0, SocketClose m)]) initial))
        [0, 1, 2] = [Some 1000, Some 2000, Some 4000]"
    by (simp add: a)
  have c: "jobs c = [] \<and> \<not> closed c \<and> readyStateOf c i \<noteq> CLOSED \<longrightarrow>
        reconnectTimer (step e (SocketClose i) c) = Some (backoffMs c)
        \<and> backoffMs (step e (SocketClose i) c) = min (backoffMs c * 2) 30000"
    using close_step(2,3) [of c i e] by blast
  have d: "jobs c = [] \<and> readyStateOf c i = OPEN \<and> map_of (pending c) (res_id res) = Some k
        \<and> map_of (awaiting c) k = Some hasId \<and> res_ok res \<longrightarrow>
        backoffMs (step e (SocketMessage i (ResponseFrame res)) c) = 1000"
    using hello_step(1) [of c i res k hasId e] by blast
  from a [of n] b c d show ?thesis by blast
qed

theorem reconnect_backoff_witness:
  "jobs (run [(env0, Start)] initial) = [] \<and> \<not> closed (run [(env0, Start)] initial)
   \<and> readyStateOf (run [(env0, Start)] initial) 0 \<noteq> CLOSED
   \<and> reconnectTimer (step env0 (SocketClose 0) (run [(env0, Start)] initial)) = Some 1000
   \<and> backoffMs (step env0 (SocketClose 0) (run [(env0, Start)] initial)) = 2000"
proof -
  have h: "jobs (run [(env0, Start)] initial) = [] \<and> \<not> closed (run [(env0, Start)] initial)
     \<and> readyStateOf (run [(env0, Start)] initial) 0 \<noteq> CLOSED"
    by (simp add: client_defs example_defs)
  have b: "backoffMs (run [(env0, Start)] initial) = 1000"
    by (simp add: client_defs example_defs)
  from reconnect_backoff [of 0 "run [(env0, Start)] initial" 0 env0, THEN conjunct2,
         THEN conjunct2, THEN conjunct1, THEN mp, OF h] h b
  show ?thesis by simp
qed

text \<open>Three failures, then a successful handshake on the fourth socket, then another
  failure: the delays are 1000, 2000 and 4000 ms, and 1000 ms again after the success.\<close>

lemma backoff_scenario:
  "map (\<lambda>evs. reconnectTimer (run evs initial))
     [ [(env0, Start), (env0, SocketClose 0)],
       [(env0, Start), (env0, SocketClose 0), (env0, ReconnectTimerFired), (env0, SocketClose 1)],
       [(env0, Start), (env0, SocketClose 0), (env0, ReconnectTimerFired), (env0, SocketClose 1),
        (env0, ReconnectTimerFired), (env0, SocketClose 2)],
       [(env0, Start), (env0, SocketClose 0), (env0, ReconnectTimerFired), (env0, SocketClose 1),
        (env0, ReconnectTimerFired), (env0, SocketClose 2), (env0, ReconnectTimerFired),
        (env0, SocketOpen 3),
        (env0, SocketMessage 3 (EventFrame (ConnectChallenge (Some ''nonce'')))),
        (env0, SocketMessage 3 (ResponseFrame hello_res)), (env0, SocketClose 3)] ]
   = [Some 1000, Some 2000, Some 4000, Some 1000]"
  by (simp add: client_defs example_defs)

section \<open>Keep-alive watchdog\<close>

lemma tick_check_step:
  fixes e :: env
  assumes "jobs c = []" "\<not> closed c" "tickTimer c \<noteq> None" "lastTick c = Some t" "t \<noteq> 0"
  shows "step e TickTimerFired c
     = (if 2 * (env_now e - t) > 5 * tickIntervalMs c then ws_close 4000 ''tick timeout'' c
        else c)"
proof -
  have "handle e TickTimerFired c
     = (if 2 * (env_now e - t) > 5 * tickIntervalMs c then ws_close 4000 ''tick timeout'' c
        else c)"
    using assms(2-5) by (auto simp add: handle_def tickTimer_fired_def)
  moreover have "jobs (ws_close 4000 ''tick timeout'' c) = []"
    using assms(1) by (simp add: ws_close_frame)
  ultimately show ?thesis using assms(1) by (simp add: step_def run_jobs_none)
qed



lemma connected_client_fields:
  "jobs connected_client = []" "\<not> closed connected_client"
  "tickTimer connected_client \<noteq> None" "lastTick connected_client = Some 5000" "(5000::int) \<noteq> 0"
  "ws connected_client = Some 0" "readyStateOf connected_client 0 = OPEN"
  "tickIntervalMs connected_client = 1000" "state connected_client = Connected"
  "tickTimer connected_client = Some 1000"
  by (simp_all add: connected_client_def client_defs example_defs)


text \<open>The comparison is strict: a check exactly 2500 ms after the last tick closes nothing.\<close>

lemma watchdog_boundary:
  "step (env0\<lparr>env_now := 7500\<rparr>) TickTimerFired connected_client = connected_client"
  using tick_check_step [OF connected_client_fields(1,2,3,4,5), of "env0\<lparr>env_now := 7500\<rparr>"]
  by (simp add: connected_client_fields)

section \<open>Request and response correlation\<close>

lemma settled_append: "settled k (xs @ ys) = settled k xs + settled k ys"
  by (induction k xs rule: settled.induct) simp_all

lemma accounted_settle:
  assumes "accounted c" and "map_of (rpcTimers c) k \<noteq> None"
    and "rpcTimers c' = AList.delete k (rpcTimers c)" and "calls c' = calls c"
    and "\<And>j. settled j (trace c') = settled j (trace c) + (if j = k then 1 else 0)"
  shows "accounted c'"
  using assms unfolding accounted_def
  by (auto simp add: delete_conv')

lemma accounted_call_rejected:
  assumes "accounted c" and "rpcTimers c' = rpcTimers c" and "calls c' = Suc (calls c)"
    and "\<And>j. settled j (trace c') = settled j (trace c) + (if j = calls c then 1 else 0)"
  shows "accounted c'"
proof -
  have "map_of (rpcTimers c) (calls c) = None"
    using assms(1) unfolding accounted_def by (cases "map_of (rpcTimers c) (calls c)") auto
  with assms show ?thesis unfolding accounted_def
    by (auto simp add: less_Suc_eq)
qed

lemma accounted_call_pending:
  assumes "accounted c" and "rpcTimers c' = rpcTimers c @ [(calls c, t)]"
    and "calls c' = Suc (calls c)" and "\<And>j. settled j (trace c') = settled j (trace c)"
  shows "accounted c'"
proof -
  have n: "map_of (rpcTimers c) (calls c) = None"
    using assms(1) unfolding accounted_def by (cases "map_of (rpcTimers c) (calls c)") auto
  have m: "map_of (rpcTimers c') j
            = (if j = calls c then Some t else map_of (rpcTimers c) j)" for j
    using n by (auto simp add: assms(2) map_add_def split: option.split)
  show ?thesis using assms(1,3,4) unfolding accounted_def
    by (auto simp add: m less_Suc_eq)
qed

lemma accounted_frame:
  assumes "accounted c" and "rpcTimers c' = rpcTimers c" and "calls c' = calls c"
    and "\<And>j. settled j (trace c') = settled j (trace c)"
  shows "accounted c'"
  using assms unfolding accounted_def by simp

lemma linked_delete:
  assumes "linked c" and "map_of (rpcTimers c) k = Some t"
    and "pending c' = AList.delete (t_id t) (pending c)"
    and "rpcTimers c' = AList.delete k (rpcTimers c)"
  shows "linked c'"
proof -
  have "\<exists>t'. map_of (rpcTimers c') j = Some t' \<and> t_id t' = i"
    if "map_of (pending c') i = Some j" for i j
  proof -
    from that have ne: "i \<noteq> t_id t" and p: "map_of (pending c) i = Some j"
      by (auto simp add: assms(3) delete_conv' split: if_splits)
    from p assms(1) obtain t' where t': "map_of (rpcTimers c) j = Some t'" "t_id t' = i"
      unfolding linked_def by blast
    with ne assms(2) have "j \<noteq> k" by auto
    with t' show ?thesis by (simp add: assms(4) delete_conv')
  qed
  moreover have "distinct (map fst (pending c'))"
    using assms(1) by (simp add: assms(3) linked_def distinct_delete)
  ultimately show ?thesis unfolding linked_def by blast
qed

lemma linked_request:
  assumes "linked c" and "accounted c"
    and "pending c' = AList.update i (calls c) (pending c)"
    and "rpcTimers c' = rpcTimers c @ [(calls c, t)]" and "t_id t = i"
  shows "linked c'"
proof -
  have n: "map_of (rpcTimers c) (calls c) = None"
    using assms(2) unfolding accounted_def by (cases "map_of (rpcTimers c) (calls c)") auto
  have m: "map_of (rpcTimers c') j
            = (if j = calls c then Some t else map_of (rpcTimers c) j)" for j
    using n by (auto simp add: assms(4) map_add_def split: option.split)
  have "\<exists>t'. map_of (rpcTimers c') j = Some t' \<and> t_id t' = i'"
    if "map_of (pending c') i' = Some j" for i' j
  proof (cases "i' = i")
    case True
    with that have "j = calls c" by (simp add: assms(3) update_conv')
    with True assms(5) show ?thesis by (simp add: m)
  next
    case False
    with that have "map_of (pending c) i' = Some j" by (simp add: assms(3) update_conv')
    with assms(1) obtain t' where t': "map_of (rpcTimers c) j = Some t'" "t_id t' = i'"
      unfolding linked_def by blast
    with n have "j \<noteq> calls c" by auto
    with t' show ?thesis by (simp add: m)
  qed
  moreover have "distinct (map fst (pending c'))"
    using assms(1) by (simp add: assms(3) linked_def distinct_update)
  ultimately show ?thesis unfolding linked_def by blast
qed

lemma linked_frame:
  "linked c \<Longrightarrow> pending c' = pending c \<Longrightarrow> rpcTimers c' = rpcTimers c \<Longrightarrow> linked c'"
  unfolding linked_def by simp

lemma linked_distinct_calls:
  assumes "linked c"
  shows "distinct (map snd (pending c)) \<and> (\<forall>(i, k)\<in>set (pending c). map_of (rpcTimers c) k \<noteq> None)"
proof -
  have d: "distinct (map fst (pending c))" using assms by (simp add: linked_def)
  have l: "\<exists>t. map_of (rpcTimers c) k = Some t \<and> t_id t = i" if "(i, k) \<in> set (pending c)" for i k
    using that assms d unfolding linked_def by simp
  have "inj_on snd (set (pending c))"
  proof (rule inj_onI)
    fix x y assume x: "x \<in> set (pending c)" and y: "y \<in> set (pending c)" and e: "snd x = snd y"
    obtain i k where xe: "x = (i, k)" by (cases x)
    obtain i' k' where ye: "y = (i', k')" by (cases y)
    from l [of i k] l [of i' k'] x y e xe ye have "i = i'" by auto
    with e xe ye show "x = y" by simp
  qed
  moreover have "distinct (pending c)" using d by (rule distinct_map [THEN iffD1, THEN conjunct1])
  ultimately have "distinct (map snd (pending c))" by (simp add: distinct_map)
  moreover have "\<forall>(i, k)\<in>set (pending c). map_of (rpcTimers c) k \<noteq> None"
    using l by fastforce
  ultimately show ?thesis by blast
qed

lemma accounted_flush_entries:
  "accounted c \<Longrightarrow> distinct (map snd ps) \<Longrightarrow>
   \<forall>(i, k)\<in>set ps. map_of (rpcTimers c) k \<noteq> None \<Longrightarrow>
   accounted (flush_entries er ps c)"
proof (induction er ps c rule: flush_entries.induct)
  case (1 err c)
  then show ?case by simp
next
  case (2 err i k ps c)
  define c' where "c' = reject k err (c\<lparr>rpcTimers := AList.delete k (rpcTimers c)\<rparr>)"
  have live: "map_of (rpcTimers c) k \<noteq> None" using "2.prems"(3) by simp
  have a: "accounted c'"
    by (rule accounted_settle [OF "2.prems"(1) live])
       (simp_all add: c'_def reject_frame reject_trace settled_append)
  have "\<forall>(i', k')\<in>set ps. map_of (rpcTimers c') k' \<noteq> None"
    using "2.prems"(2,3) by (force simp add: c'_def reject_frame delete_conv')
  with "2.IH" [folded c'_def] a "2.prems"(2) show ?case
    by (simp add: c'_def)
qed


lemma rpc_inv_fields [simp]:
  "rpc_inv (c\<lparr>ws := a1\<rparr>) = rpc_inv c"
  "rpc_inv (c\<lparr>state := a2\<rparr>) = rpc_inv c"
  "rpc_inv (c\<lparr>connectNonce := a3\<rparr>) = rpc_inv c"
  "rpc_inv (c\<lparr>connectSent := a4\<rparr>) = rpc_inv c"
  "rpc_inv (c\<lparr>connectTimer := a5\<rparr>) = rpc_inv c"
  "rpc_inv (c\<lparr>tickTimer := a6\<rparr>) = rpc_inv c"
  "rpc_inv (c\<lparr>lastTick := a7\<rparr>) = rpc_inv c"
  "rpc_inv (c\<lparr>tickIntervalMs := a8\<rparr>) = rpc_inv c"
  "rpc_inv (c\<lparr>backoffMs := a9\<rparr>) = rpc_inv c"
  "rpc_inv (c\<lparr>closed := a10\<rparr>) = rpc_inv c"
  "rpc_inv (c\<lparr>reconnectTimer := a11\<rparr>) = rpc_inv c"
  "rpc_inv (c\<lparr>sockets := a12\<rparr>) = rpc_inv c"
  "rpc_inv (c\<lparr>awaiting := a15\<rparr>) = rpc_inv c"
  "rpc_inv (c\<lparr>signing := a16\<rparr>) = rpc_inv c"
  "rpc_inv (c\<lparr>jobs := a17\<rparr>) = rpc_inv c"
  by (simp_all add: rpc_inv_def accounted_def linked_def)

lemma rpc_inv_emit [simp]:
  "rpc_inv (emit (StateChange s) c) = rpc_inv c"
  "rpc_inv (emit PairingRequired c) = rpc_inv c"
  "rpc_inv (emit (ConnectError er) c) = rpc_inv c"
  "rpc_inv (emit (DeviceTokenReceived tk) c) = rpc_inv c"
  "rpc_inv (emit (ChatEvent p) c) = rpc_inv c"
  "rpc_inv (emit (NewWebSocket i u) c) = rpc_inv c"
  "rpc_inv (emit (WsClose i cd rs) c) = rpc_inv c"
  "rpc_inv (emit (WsSend i u m) c) = rpc_inv c"
  by (simp_all add: rpc_inv_def accounted_def linked_def emit_def settled_append)

lemma rpc_inv_setState [simp]: "rpc_inv (setState s c) = rpc_inv c"
  by (simp add: setState_def)

lemma rpc_inv_socket_close [simp]: "rpc_inv (socket_close i cd rs c) = rpc_inv c"
  by (simp add: socket_close_def)

lemma rpc_inv_ws_close [simp]: "rpc_inv (ws_close cd rs c) = rpc_inv c"
  by (simp add: ws_close_def split: option.split)

lemma rpc_inv_timers [simp]:
  "rpc_inv (clearTimers c) = rpc_inv c"
  "rpc_inv (scheduleReconnect c) = rpc_inv c"
  "rpc_inv (startTickWatch c) = rpc_inv c"
  "rpc_inv (queueConnectTimeout c) = rpc_inv c"
  "rpc_inv (connectTimer_fired c) = rpc_inv c"
  "rpc_inv (tickTimer_fired e c) = rpc_inv c"
  by (simp_all add: clearTimers_def scheduleReconnect_def startTickWatch_def
      queueConnectTimeout_def connectTimer_fired_def tickTimer_fired_def Let_def)

lemma rpc_inv_request: "rpc_inv c \<Longrightarrow> rpc_inv (request ow m t e c)"
proof -
  assume inv: "rpc_inv c"
  define c1 where "c1 = c\<lparr>calls := Suc (calls c),
                 awaiting := (case ow of None \<Rightarrow> awaiting c
                              | Some hasId \<Rightarrow> awaiting c @ [(calls c, hasId)])\<rparr>"
  define tm where "tm = \<lparr>t_id = env_uuid e, t_method = m, t_timeoutMs = t\<rparr>"
  define c2 where "c2 = emit (WsSend (the (ws c)) (env_uuid e) m)
                    (c1\<lparr>rpcTimers := rpcTimers c1 @ [(calls c, tm)],
                         pending := AList.update (env_uuid e) (calls c) (pending c1)\<rparr>)"
  define c3 where "c3 = reject (calls c) (new_Error ''WebSocket not connected'') c1"
  have r: "request ow m t e c = c2 \<or> request ow m t e c = c3"
    by (auto simp add: request_def Let_def c1_def c2_def c3_def tm_def split: option.split)
  have "accounted c3"
    by (rule accounted_call_rejected [of c])
       (use inv in \<open>simp_all add: rpc_inv_def c3_def c1_def reject_frame reject_trace settled_append\<close>)
  moreover have "linked c3"
    by (rule linked_frame [of c])
       (use inv in \<open>simp_all add: rpc_inv_def c3_def c1_def reject_frame\<close>)
  moreover have "accounted c2"
    by (rule accounted_call_pending [of c _ tm])
       (use inv in \<open>simp_all add: rpc_inv_def c2_def c1_def emit_def settled_append\<close>)
  moreover have "linked c2"
    by (rule linked_request [of c _ "env_uuid e" tm])
       (use inv in \<open>simp_all add: rpc_inv_def c2_def c1_def emit_def tm_def\<close>)
  ultimately show ?thesis using r by (auto simp add: rpc_inv_def)
qed

lemma rpc_inv_settle_timer:
  assumes "rpc_inv c" and "map_of (rpcTimers c) k = Some t"
    and "pending c' = AList.delete (t_id t) (pending c)"
    and "rpcTimers c' = AList.delete k (rpcTimers c)" and "calls c' = calls c"
    and "\<And>j. settled j (trace c') = settled j (trace c) + (if j = k then 1 else 0)"
  shows "rpc_inv c'"
proof -
  have "accounted c'"
    by (rule accounted_settle [of c k]) (use assms in \<open>simp_all add: rpc_inv_def\<close>)
  moreover have "linked c'"
    by (rule linked_delete [of c k t]) (use assms in \<open>simp_all add: rpc_inv_def\<close>)
  ultimately show ?thesis by (simp add: rpc_inv_def)
qed

lemma rpc_inv_rpcTimer_fired: "rpc_inv c \<Longrightarrow> rpc_inv (rpcTimer_fired k c)"
proof (cases "map_of (rpcTimers c) k")
  case None
  then show "rpc_inv c \<Longrightarrow> ?thesis" by (simp add: rpcTimer_fired_def)
next
  case (Some t)
  assume inv: "rpc_inv c"
  show ?thesis
    by (rule rpc_inv_settle_timer [OF inv Some])
       (simp_all add: rpcTimer_fired_def Some reject_frame reject_trace settled_append)
qed

lemma rpc_inv_handleResponse: "rpc_inv c \<Longrightarrow> rpc_inv (handleResponse res c)"
proof (cases "map_of (pending c) (res_id res)")
  case None
  then show "rpc_inv c \<Longrightarrow> ?thesis" by (simp add: handleResponse_def)
next
  case (Some k)
  assume inv: "rpc_inv c"
  with Some obtain t where t: "map_of (rpcTimers c) k = Some t" "t_id t = res_id res"
    unfolding rpc_inv_def linked_def by blast
  show ?thesis
    by (rule rpc_inv_settle_timer [OF inv t(1)])
       (simp_all add: handleResponse_def Some Let_def t(2) reject_frame reject_trace
          resolve_frame settled_append)
qed

lemma rpc_inv_flushPending: "rpc_inv c \<Longrightarrow> rpc_inv (flushPending er c)"
proof -
  assume inv: "rpc_inv c"
  then have "accounted (flush_entries er (pending c) c)"
    using linked_distinct_calls [of c] by (intro accounted_flush_entries) (simp_all add: rpc_inv_def)
  then have "accounted (flushPending er c)"
    by (simp add: flushPending_def accounted_def)
  moreover have "linked (flushPending er c)"
    by (simp add: flushPending_def linked_def)
  ultimately show ?thesis by (simp add: rpc_inv_def)
qed

lemma rpc_inv_connect: "rpc_inv (connect e c) = rpc_inv c"
  by (simp add: connect_def Let_def split: option.split)

lemma rpc_inv_sendConnect: "rpc_inv c \<Longrightarrow> rpc_inv (sendConnect e c)"
  by (simp add: sendConnect_def sendConnect_request_def Let_def rpc_inv_request)

lemma rpc_inv_signPayload_settled: "rpc_inv c \<Longrightarrow> rpc_inv (signPayload_settled e c)"
  by (simp add: signPayload_settled_def sendConnect_request_def rpc_inv_request)

lemma rpc_inv_continuations [simp]:
  "rpc_inv (sendConnect_ok h p e c) = rpc_inv c"
  "rpc_inv (sendConnect_catch er c) = rpc_inv c"
  by (simp_all add: sendConnect_ok_def sendConnect_catch_def Let_def split: option.split)

lemma rpc_inv_handleMessage: "rpc_inv c \<Longrightarrow> rpc_inv (handleMessage raw e c)"
  by (simp add: handleMessage_def handleEvent_def rpc_inv_sendConnect rpc_inv_handleResponse
      split: Frame.split GatewayEvent.split option.split)

lemma rpc_inv_ws_onclose: "rpc_inv c \<Longrightarrow> rpc_inv (ws_onclose c)"
  by (simp add: ws_onclose_def Let_def rpc_inv_flushPending)

lemma rpc_inv_stop: "rpc_inv c \<Longrightarrow> rpc_inv (stop c)"
  by (simp add: stop_def Let_def rpc_inv_flushPending split: option.split)

lemma rpc_inv_restart: "rpc_inv c \<Longrightarrow> rpc_inv (restart e c)"
  by (simp add: restart_def Let_def rpc_inv_connect rpc_inv_flushPending split: option.split)

lemma rpc_inv_handle: "rpc_inv c \<Longrightarrow> rpc_inv (handle e ev c)"
  by (cases ev)
     (simp_all add: handle_def start_def rpc_inv_connect rpc_inv_stop rpc_inv_restart
        rpc_inv_request ws_onopen_def ws_onmessage_def rpc_inv_handleMessage rpc_inv_ws_onclose
        reconnectTimer_fired_def Let_def rpc_inv_rpcTimer_fired rpc_inv_signPayload_settled)

lemma rpc_inv_fold_jobs: "rpc_inv c \<Longrightarrow> rpc_inv (fold (run_job e) js c)"
proof (induction js arbitrary: c)
  case Nil
  then show ?case by simp
next
  case (Cons j js)
  then show ?case by (cases j) (simp_all add: run_job_def)
qed

lemma rpc_inv_step: "rpc_inv c \<Longrightarrow> rpc_inv (step e ev c)"
  by (simp add: step_def run_jobs_def rpc_inv_fold_jobs rpc_inv_handle)

lemma rpc_inv_run: "rpc_inv c \<Longrightarrow> rpc_inv (run evs c)"
  unfolding run_def
  by (induction evs arbitrary: c) (simp_all add: rpc_inv_step split_def)

lemma rpc_inv_initial: "rpc_inv initial"
  by (simp add: rpc_inv_def accounted_def linked_def initial_def)

lemma handleResponse_resolves:
  assumes "map_of (pending c) (res_id res) = Some k" "res_ok res"
  shows "trace (handleResponse res c) = trace c @ [Resolve k (res_payload res)]"
    "map_of (rpcTimers (handleResponse res c)) k = None"
    "map_of (pending (handleResponse res c)) (res_id res) = None"
  using assms by (simp_all add: handleResponse_def Let_def resolve_frame delete_conv')

lemma handleResponse_unknown:
  "map_of (pending c) (res_id res) = None \<Longrightarrow> handleResponse res c = c"
  by (simp add: handleResponse_def)

lemma rpcTimer_fired_rejects:
  assumes "map_of (rpcTimers c) k = Some t"
  shows "trace (rpcTimer_fired k c)
           = trace c @ [Reject k (new_Error (''RPC timeout: '' @ t_method t @ '' (''
                                   @ String_number (t_timeoutMs t) @ ''ms)''))]"
    "map_of (pending (rpcTimer_fired k c)) (t_id t) = None"
    "map_of (rpcTimers (rpcTimer_fired k c)) k = None"
  using assms by (simp_all add: rpcTimer_fired_def reject_frame reject_trace delete_conv')

text \<open>
  Claim C3. In every run of the client from its initial state, the promise of each
  \<open>request\<close> call is settled at most once, counting resolutions and rejections together: a
  call with a live timeout is unsettled, a call without one has been settled exactly once,
  and every pending entry has the live timeout of its call. A response with the id of a
  pending entry and \<open>ok = true\<close> resolves that call with the response payload, clears its
  timeout and removes the entry; a response with an unknown id changes nothing; a timeout
  that fires rejects its call with an error naming the method and the duration, and
  removes the entry, so that a later response with that id changes nothing.
\<close>

theorem rpc_settled_exactly_once:
  "(let c = run evs initial in
      (\<forall>k. settled k (trace c) \<le> 1)
    \<and> (\<forall>k. k < calls c \<longrightarrow>
          settled k (trace c) = (if map_of (rpcTimers c) k = None then 1 else 0))
    \<and> (\<forall>i k. map_of (pending c) i = Some k \<longrightarrow>
          settled k (trace c) = 0 \<and> (\<exists>t. map_of (rpcTimers c) k = Some t \<and> t_id t = i))
    \<and> (\<forall>res k. map_of (pending c) (res_id res) = Some k \<and> res_ok res \<longrightarrow>
          trace (handleResponse res c) = trace c @ [Resolve k (res_payload res)]
          \<and> map_of (rpcTimers (handleResponse res c)) k = None
          \<and> map_of (pending (handleResponse res c)) (res_id res) = None)
    \<and> (\<forall>res. map_of (pending c) (res_id res) = None \<longrightarrow> handleResponse res c = c)
    \<and> (\<forall>k t. map_of (rpcTimers c) k = Some t \<longrightarrow>
          trace (rpcTimer_fired k c)
            = trace c @ [Reject k (new_Error (''RPC timeout: '' @ t_method t @ '' (''
                                    @ String_number (t_timeoutMs t) @ ''ms)''))]
          \<and> map_of (pending (rpcTimer_fired k c)) (t_id t) = None
          \<and> map_of (rpcTimers (rpcTimer_fired k c)) k = None
          \<and> (\<forall>res. res_id res = t_id t \<longrightarrow>
                handleResponse res (rpcTimer_fired k c) = rpcTimer_fired k c)))"
proof -
  define c where "c = run evs initial"
  have inv: "rpc_inv c" unfolding c_def by (rule rpc_inv_run) (rule rpc_inv_initial)
  have a: "\<forall>k. settled k (trace c) \<le> 1"
    using inv unfolding rpc_inv_def accounted_def by simp
  have b: "\<forall>k. k < calls c \<longrightarrow>
          settled k (trace c) = (if map_of (rpcTimers c) k = None then 1 else 0)"
    using inv unfolding rpc_inv_def accounted_def by simp
  have d: "\<forall>i k. map_of (pending c) i = Some k \<longrightarrow>
          settled k (trace c) = 0 \<and> (\<exists>t. map_of (rpcTimers c) k = Some t \<and> t_id t = i)"
  proof (intro allI impI)
    fix i k assume "map_of (pending c) i = Some k"
    with inv obtain t where t: "map_of (rpcTimers c) k = Some t" "t_id t = i"
      unfolding rpc_inv_def linked_def by blast
    with inv have "settled k (trace c) = 0" unfolding rpc_inv_def accounted_def by simp
    with t show "settled k (trace c) = 0 \<and> (\<exists>t. map_of (rpcTimers c) k = Some t \<and> t_id t = i)"
      by blast
  qed
  have f: "\<forall>res k. map_of (pending c) (res_id res) = Some k \<and> res_ok res \<longrightarrow>
          trace (handleResponse res c) = trace c @ [Resolve k (res_payload res)]
          \<and> map_of (rpcTimers (handleResponse res c)) k = None
          \<and> map_of (pending (handleResponse res c)) (res_id res) = None"
    using handleResponse_resolves by blast
  have g: "\<forall>res. map_of (pending c) (res_id res) = None \<longrightarrow> handleResponse res c = c"
    using handleResponse_unknown by blast
  have h: "\<forall>k t. map_of (rpcTimers c) k = Some t \<longrightarrow>
          trace (rpcTimer_fired k c)
            = trace c @ [Reject k (new_Error (''RPC timeout: '' @ t_method t @ '' (''
                                    @ String_number (t_timeoutMs t) @ ''ms)''))]
          \<and> map_of (pending (rpcTimer_fired k c)) (t_id t) = None
          \<and> map_of (rpcTimers (rpcTimer_fired k c)) k = None
          \<and> (\<forall>res. res_id res = t_id t \<longrightarrow>
                handleResponse res (rpcTimer_fired k c) = rpcTimer_fired k c)"
  proof (intro allI impI)
    fix k t assume t: "map_of (rpcTimers c) k = Some t"
    note r = rpcTimer_fired_rejects [OF t]
    have "\<forall>res. res_id res = t_id t \<longrightarrow>
                handleResponse res (rpcTimer_fired k c) = rpcTimer_fired k c"
      using r(2) handleResponse_unknown [of "rpcTimer_fired k c"] by simp
    with r show "trace (rpcTimer_fired k c)
            = trace c @ [Reject k (new_Error (''RPC timeout: '' @ t_method t @ '' (''
                                    @ String_number (t_timeoutMs t) @ ''ms)''))]
          \<and> map_of (pending (rpcTimer_fired k c)) (t_id t) = None
          \<and> map_of (rpcTimers (rpcTimer_fired k c)) k = None
          \<and> (\<forall>res. res_id res = t_id t \<longrightarrow>
                handleResponse res (rpcTimer_fired k c) = rpcTimer_fired k c)"
      by blast
  qed
  from a b d f g h show ?thesis unfolding Let_def c_def [symmetric] by blast
qed

theorem rpc_settled_exactly_once_witness:
  "map_of (rpcTimers requesting_client) 1
     = Some \<lparr>t_id = ''u2'', t_method = ''chat.send'', t_timeoutMs = 60000\<rparr>
   \<and> map_of (pending requesting_client) (res_id late_res) = Some 1 \<and> res_ok late_res
   \<and> trace (handleResponse late_res requesting_client)
       = trace requesting_client @ [Resolve 1 None]
   \<and> trace (rpcTimer_fired 1 requesting_client)
       = trace requesting_client @ [Reject 1 (new_Error ''RPC timeout: chat.send (60000ms)'')]
   \<and> handleResponse late_res (rpcTimer_fired 1 requesting_client)
       = rpcTimer_fired 1 requesting_client"
proof -
  have t: "map_of (rpcTimers requesting_client) 1
     = Some \<lparr>t_id = ''u2'', t_method = ''chat.send'', t_timeoutMs = 60000\<rparr>"
    and p: "map_of (pending requesting_client) (res_id late_res) = Some 1 \<and> res_ok late_res"
    by (simp_all add: requesting_client_def late_res_def client_defs example_defs)
  have s: "''RPC timeout: '' @ ''chat.send'' @ '' ('' @ String_number 60000 @ ''ms)''
           = ''RPC timeout: chat.send (60000ms)''"
    by (simp add: String_number_def)
  have i: "res_id late_res = ''u2''" "res_payload late_res = None" by (simp_all add: late_res_def)
  note inst = rpc_settled_exactly_once [of "handshake @ [(env0\<lparr>env_uuid := ''u2''\<rparr>,
      Request ''chat.send'' 60000)]", unfolded Let_def, folded requesting_client_def]
  from inst have "trace (handleResponse late_res requesting_client)
       = trace requesting_client @ [Resolve 1 (res_payload late_res)]"
    using p by blast
  moreover from inst t have "trace (rpcTimer_fired 1 requesting_client)
       = trace requesting_client @ [Reject 1 (new_Error (''RPC timeout: '' @ ''chat.send'' @ '' (''
                                    @ String_number 60000 @ ''ms)''))]
     \<and> (\<forall>res. res_id res = ''u2'' \<longrightarrow>
                handleResponse res (rpcTimer_fired 1 requesting_client)
                  = rpcTimer_fired 1 requesting_client)"
    by fastforce
  ultimately show ?thesis using t p s i by simp
qed

end
